theory Spec2Isabelle
  imports Complex_Main
begin

section \<open>Numbers\<close>

text \<open>
  The model follows \<^verbatim>\<open>src/path.ts\<close>. A JavaScript number is a real number or the
  value \<open>NaN\<close>: \<open>Num x\<close> is a finite number, and arithmetic on finite numbers is exact,
  where JavaScript rounds to the nearest double. \<open>NaN\<close> is the result of an operation
  without a finite one. It also stands for the two infinities: a division by zero gives
  \<open>NaN\<close> whatever the dividend, where JavaScript gives an infinity for a dividend other
  than zero; and the zero has no sign. An operation with a \<open>NaN\<close> operand gives
  \<open>NaN\<close>, and every comparison with \<open>NaN\<close>, the strict equality included, is false.
\<close>

datatype number = Num real | NaN

instantiation number :: "{plus, minus, times, inverse, uminus, ord}"
begin

definition plus_number :: "number \<Rightarrow> number \<Rightarrow> number" where
  "plus_number a b =
    (case a of NaN \<Rightarrow> NaN | Num x \<Rightarrow> (case b of NaN \<Rightarrow> NaN | Num y \<Rightarrow> Num (x + y)))"

definition minus_number :: "number \<Rightarrow> number \<Rightarrow> number" where
  "minus_number a b =
    (case a of NaN \<Rightarrow> NaN | Num x \<Rightarrow> (case b of NaN \<Rightarrow> NaN | Num y \<Rightarrow> Num (x - y)))"

definition times_number :: "number \<Rightarrow> number \<Rightarrow> number" where
  "times_number a b =
    (case a of NaN \<Rightarrow> NaN | Num x \<Rightarrow> (case b of NaN \<Rightarrow> NaN | Num y \<Rightarrow> Num (x * y)))"

definition divide_number :: "number \<Rightarrow> number \<Rightarrow> number" where
  "divide_number a b =
    (case a of
       NaN \<Rightarrow> NaN
     | Num x \<Rightarrow> (case b of NaN \<Rightarrow> NaN | Num y \<Rightarrow> if y = 0 then NaN else Num (x / y)))"

definition inverse_number :: "number \<Rightarrow> number" where
  "inverse_number a =
    (case a of NaN \<Rightarrow> NaN | Num y \<Rightarrow> if y = 0 then NaN else Num (1 / y))"

definition uminus_number :: "number \<Rightarrow> number" where
  "uminus_number a = (case a of NaN \<Rightarrow> NaN | Num x \<Rightarrow> Num (- x))"

definition less_number :: "number \<Rightarrow> number \<Rightarrow> bool" where
  "less_number a b =
    (case a of NaN \<Rightarrow> False | Num x \<Rightarrow> (case b of NaN \<Rightarrow> False | Num y \<Rightarrow> x < y))"

definition less_eq_number :: "number \<Rightarrow> number \<Rightarrow> bool" where
  "less_eq_number a b =
    (case a of NaN \<Rightarrow> False | Num x \<Rightarrow> (case b of NaN \<Rightarrow> False | Num y \<Rightarrow> x \<le> y))"

instance ..

end

text \<open>The operator \<^verbatim>\<open>===\<close> on two numbers.\<close>

definition strict_eq :: "number \<Rightarrow> number \<Rightarrow> bool" where
  "strict_eq a b =
    (case a of NaN \<Rightarrow> False | Num x \<Rightarrow> (case b of NaN \<Rightarrow> False | Num y \<Rightarrow> x = y))"

text \<open>
  The constant and the functions of \<^verbatim>\<open>Math\<close> that the source uses. The square root of a
  negative number is \<open>NaN\<close>.
\<close>

definition Math_PI :: number where
  "Math_PI = Num pi"

definition Math_abs :: "number \<Rightarrow> number" where
  "Math_abs a = (case a of NaN \<Rightarrow> NaN | Num x \<Rightarrow> Num \<bar>x\<bar>)"

definition Math_sin :: "number \<Rightarrow> number" where
  "Math_sin a = (case a of NaN \<Rightarrow> NaN | Num x \<Rightarrow> Num (sin x))"

definition Math_cos :: "number \<Rightarrow> number" where
  "Math_cos a = (case a of NaN \<Rightarrow> NaN | Num x \<Rightarrow> Num (cos x))"

definition Math_sqrt :: "number \<Rightarrow> number" where
  "Math_sqrt a = (case a of NaN \<Rightarrow> NaN | Num x \<Rightarrow> if x < 0 then NaN else Num (sqrt x))"

definition Math_ceil :: "number \<Rightarrow> number" where
  "Math_ceil a = (case a of NaN \<Rightarrow> NaN | Num x \<Rightarrow> Num (of_int \<lceil>x\<rceil>))"

definition Math_floor :: "number \<Rightarrow> number" where
  "Math_floor a = (case a of NaN \<Rightarrow> NaN | Num x \<Rightarrow> Num (of_int \<lfloor>x\<rfloor>))"

text \<open>
  \<^verbatim>\<open>Math.atan2(y, x)\<close> on finite numbers: the angle of the point \<open>(x, y)\<close>, in the
  interval from \<open>- pi\<close> (excluded) to \<open>pi\<close>, and 0 at the origin.
\<close>

definition atan2 :: "real \<Rightarrow> real \<Rightarrow> real" where
  "atan2 y x =
    (if 0 < x then arctan (y / x)
     else if x < 0 then (if 0 \<le> y then arctan (y / x) + pi else arctan (y / x) - pi)
     else if 0 < y then pi / 2
     else if y < 0 then - pi / 2
     else 0)"

definition Math_atan2 :: "number \<Rightarrow> number \<Rightarrow> number" where
  "Math_atan2 a b =
    (case a of NaN \<Rightarrow> NaN | Num y \<Rightarrow> (case b of NaN \<Rightarrow> NaN | Num x \<Rightarrow> Num (atan2 y x)))"

text \<open>A \<^verbatim>\<open>Point\<close> is an array of two numbers.\<close>

type_synonym Point = "number \<times> number"

section \<open>Path descriptions: tokens, segments, points\<close>

text \<open>
  A path description is a \<open>string\<close>. The value of a numeric literal is its exact decimal
  value.
\<close>

datatype PathTokenType = COMMAND | NUMBER | END_OF_D

record PathToken =
  type :: PathTokenType
  text' :: string

definition isPathTokenType :: "PathToken \<Rightarrow> PathTokenType \<Rightarrow> bool" where
  "isPathTokenType token ty = (type token = ty)"

record Segment =
  key :: string
  data :: "number list"
  point :: "Point option"

text \<open>
  \<^verbatim>\<open>PARAMS_LENGTH\<close> is an object indexed by strings; a key that is not in the table
  reads as \<^verbatim>\<open>undefined\<close>, here \<open>None\<close>.
\<close>

definition PARAMS_LENGTH :: "string \<Rightarrow> nat option" where
  "PARAMS_LENGTH k =
    (if k = ''A'' then Some 7 else if k = ''a'' then Some 7
     else if k = ''C'' then Some 6 else if k = ''c'' then Some 6
     else if k = ''H'' then Some 1 else if k = ''h'' then Some 1
     else if k = ''L'' then Some 2 else if k = ''l'' then Some 2
     else if k = ''M'' then Some 2 else if k = ''m'' then Some 2
     else if k = ''Q'' then Some 4 else if k = ''q'' then Some 4
     else if k = ''S'' then Some 4 else if k = ''s'' then Some 4
     else if k = ''T'' then Some 4 else if k = ''t'' then Some 2
     else if k = ''V'' then Some 1 else if k = ''v'' then Some 1
     else if k = ''Z'' then Some 0 else if k = ''z'' then Some 0
     else None)"

subsection \<open>The tokenizer\<close>

text \<open>
  The three regular expressions of \<^verbatim>\<open>tokenize\<close>, each anchored at the start of the
  remaining input and each returning the text of its first group (\<^verbatim>\<open>RegExp.$1\<close>).
\<close>

definition is_separator :: "char \<Rightarrow> bool" where
  "is_separator c = (c \<in> set [CHR '' '', CHR 0x09, CHR 0x0D, CHR 0x0A, CHR '','']) "

definition is_command :: "char \<Rightarrow> bool" where
  "is_command c = (c \<in> set ''aAcChHlLmMqQsStTvVzZ'')"

definition is_digit :: "char \<Rightarrow> bool" where
  "is_digit c = (c \<in> set ''0123456789'')"

definition is_sign :: "char \<Rightarrow> bool" where
  "is_sign c = (c = CHR ''-'' \<or> c = CHR ''+'')"

text \<open>\<^verbatim>\<open>[-+]?\<close>: the sign, when there is one.\<close>

definition match_sign :: "string \<Rightarrow> string" where
  "match_sign d = (case d of [] \<Rightarrow> [] | c # cs \<Rightarrow> if is_sign c then [c] else [])"

text \<open>
  \<^verbatim>\<open>[-+]?[0-9]+(\.[0-9]*)?\<close>: greedy, so all the digits, then a dot with all the
  digits after it when a dot follows.
\<close>

definition match_mantissa1 :: "string \<Rightarrow> string option" where
  "match_mantissa1 d =
    (let sg = match_sign d;
         r1 = drop (length sg) d;
         ds = takeWhile is_digit r1;
         r2 = drop (length ds) r1
     in if ds = [] then None
        else (case r2 of
                c # r3 \<Rightarrow> if c = CHR ''.'' then Some (sg @ ds @ [c] @ takeWhile is_digit r3)
                          else Some (sg @ ds)
              | [] \<Rightarrow> Some (sg @ ds)))"

text \<open>\<^verbatim>\<open>[-+]?\.[0-9]+\<close>\<close>

definition match_mantissa2 :: "string \<Rightarrow> string option" where
  "match_mantissa2 d =
    (let sg = match_sign d;
         r1 = drop (length sg) d
     in (case r1 of
           c # r2 \<Rightarrow>
             if c = CHR ''.'' \<and> takeWhile is_digit r2 \<noteq> []
             then Some (sg @ [c] @ takeWhile is_digit r2) else None
         | [] \<Rightarrow> None))"

text \<open>\<^verbatim>\<open>([eE][-+]?[0-9]+)?\<close>: the exponent when all of it is there, else nothing.\<close>

definition match_exponent :: "string \<Rightarrow> string" where
  "match_exponent d =
    (case d of
       [] \<Rightarrow> []
     | c # r1 \<Rightarrow>
         if c = CHR ''e'' \<or> c = CHR ''E''
         then (let sg = match_sign r1; ds = takeWhile is_digit (drop (length sg) r1)
               in if ds = [] then [] else [c] @ sg @ ds)
         else [])"

definition match_number :: "string \<Rightarrow> string option" where
  "match_number d =
    (case (case match_mantissa1 d of Some m \<Rightarrow> Some m | None \<Rightarrow> match_mantissa2 d) of
       None \<Rightarrow> None
     | Some m \<Rightarrow> Some (m @ match_exponent (drop (length m) d)))"

text \<open>
  \<^verbatim>\<open>parseFloat\<close> on a literal that \<open>match_number\<close> returned: sign, integer digits,
  fraction digits and exponent, read as the exact decimal value.
\<close>

definition digit_value :: "char \<Rightarrow> nat" where
  "digit_value c = of_char c - 48"

definition digits_value :: "string \<Rightarrow> nat" where
  "digits_value ds = foldl (\<lambda>n c. 10 * n + digit_value c) 0 ds"

definition exponent_value :: "string \<Rightarrow> int" where
  "exponent_value ex =
    (case ex of
       [] \<Rightarrow> 0
     | e # r1 \<Rightarrow>
         (let sg = match_sign r1; ds = takeWhile is_digit (drop (length sg) r1)
          in if sg = ''-'' then - int (digits_value ds) else int (digits_value ds)))"

definition parseFloat :: "string \<Rightarrow> number" where
  "parseFloat s =
    (let sg = match_sign s;
         r1 = drop (length sg) s;
         ip = takeWhile is_digit r1;
         r2 = drop (length ip) r1;
         dot = (case r2 of c # _ \<Rightarrow> c = CHR ''.'' | [] \<Rightarrow> False);
         fp = (if dot then takeWhile is_digit (drop 1 r2) else []);
         ex = exponent_value (match_exponent (drop (if dot then 1 + length fp else 0) r2));
         mant = real (digits_value ip) + real (digits_value fp) / 10 ^ length fp;
         v = (if 0 \<le> ex then mant * 10 ^ nat ex else mant / 10 ^ nat (- ex))
     in if sg = ''-'' then Num (- v) else Num v)"

text \<open>
  \<^verbatim>\<open>tokenize\<close>. A NUMBER token holds \<^verbatim>\<open>`${parseFloat(RegExp.$1)}`\<close>, the printed
  double, and \<^verbatim>\<open>parseData\<close> reads it back with unary plus, which returns the double
  that was printed. The model keeps the literal in the token and applies \<open>parseFloat\<close>
  where the parser reads the number; the text of a NUMBER token is compared with nothing but
  \<^verbatim>\<open>'M'\<close> and \<^verbatim>\<open>'m'\<close>, which neither a literal nor a printed number equals.
  When no branch matches, the tokens collected so far are dropped and the result is the empty
  list, without the end marker.
\<close>

function tokenize_loop :: "string \<Rightarrow> PathToken list \<Rightarrow> PathToken list" where
  "tokenize_loop d tokens =
    (if d = [] then tokens @ [\<lparr>type = END_OF_D, text' = []\<rparr>]
     else if takeWhile is_separator d \<noteq> []
       then tokenize_loop (drop (length (takeWhile is_separator d)) d) tokens
     else if is_command (hd d)
       then tokenize_loop (drop 1 d) (tokens @ [\<lparr>type = COMMAND, text' = [hd d]\<rparr>])
     else (case match_number d of
             Some lit \<Rightarrow>
               tokenize_loop (drop (length lit) d) (tokens @ [\<lparr>type = NUMBER, text' = lit\<rparr>])
           | None \<Rightarrow> []))"
  by pat_completeness auto
termination
proof (relation "measure (\<lambda>(d, tokens). length d)")
  fix d :: string and tokens :: "PathToken list" and lit
  assume "d \<noteq> []" and "match_number d = Some lit"
  then have "lit \<noteq> []"
    by (auto simp: match_number_def match_mantissa1_def match_mantissa2_def Let_def
        split: option.splits if_splits list.splits)
  with \<open>d \<noteq> []\<close>
  show "((drop (length lit) d, tokens @ [\<lparr>type = NUMBER, text' = lit\<rparr>]), d, tokens)
      \<in> measure (\<lambda>(d, tokens). length d)"
    by simp
qed (auto simp: takeWhile_eq_Nil_iff)

declare tokenize_loop.simps [simp del]

definition tokenize :: "string \<Rightarrow> PathToken list" where
  "tokenize d = tokenize_loop d []"

subsection \<open>The segment parser\<close>

text \<open>
  Reading an array beyond its end gives \<^verbatim>\<open>undefined\<close>; reading a property of
  \<^verbatim>\<open>undefined\<close> throws a TypeError, the one exception this code can raise.
\<close>

datatype error = TypeError

definition get_at :: "'a list \<Rightarrow> nat \<Rightarrow> 'a option" where
  "get_at xs i = (if i < length xs then Some (xs ! i) else None)"

text \<open>
  The variables of the loop of \<^verbatim>\<open>parseData\<close>, with \<^verbatim>\<open>this.segments\<close> and the
  lines written by \<^verbatim>\<open>console.error\<close>.
\<close>

record ParseState =
  index :: nat
  token :: "PathToken option"
  tokenValue :: string
  this_segments :: "Segment list"
  console :: "string list"

type_synonym ParseResult = "error + Segment list \<times> string list"

datatype params_result = Params "number list" | NotANumber PathToken | Undefined

text \<open>The inner \<^verbatim>\<open>for\<close> loop, over the indices it visits.\<close>

fun read_params :: "PathToken list \<Rightarrow> nat list \<Rightarrow> number list \<Rightarrow> params_result" where
  "read_params tokens [] params = Params params"
| "read_params tokens (i # rest) params =
    (case get_at tokens i of
       None \<Rightarrow> Undefined
     | Some numbeToken \<Rightarrow>
         if isPathTokenType numbeToken NUMBER
         then read_params tokens rest (params @ [parseFloat (text' numbeToken)])
         else NotANumber numbeToken)"

text \<open>
  One turn of the \<^verbatim>\<open>while\<close> loop, entered with the loop condition still to test. It
  ends the call with a result (\<open>Return\<close>: the loop condition fails, a \<^verbatim>\<open>return\<close>
  statement, or the TypeError), hands over to \<^verbatim>\<open>this.parseData('M0,0' + d)\<close>
  (\<open>Reparse\<close>), or goes round again (\<open>Continue\<close>).
\<close>

datatype step = Return ParseResult | Reparse | Continue ParseState

definition ended_short :: "ParseState \<Rightarrow> nat \<Rightarrow> string \<Rightarrow> step" where
  "ended_short st index1 tokenValue1 =
     Continue (st\<lparr>index := index1, tokenValue := tokenValue1,
                  console := console st @ [''Path data ended short'']\<rparr>)"

text \<open>
  The first \<^verbatim>\<open>if\<close> of the loop body when it does not hand over: the index after the
  command letter, \<^verbatim>\<open>paramLength\<close> and the new \<^verbatim>\<open>tokenValue\<close>.
\<close>

definition select_command :: "ParseState \<Rightarrow> PathToken \<Rightarrow> nat \<times> nat option \<times> string" where
  "select_command st tok =
    (if tokenValue st = ''BEGIN_OF_D''
     then (index st + 1, PARAMS_LENGTH (text' tok), text' tok)
     else if isPathTokenType tok NUMBER
     then (index st, PARAMS_LENGTH (tokenValue st), tokenValue st)
     else (index st + 1, PARAMS_LENGTH (text' tok), text' tok))"

text \<open>
  The second \<^verbatim>\<open>if\<close>. With \<^verbatim>\<open>paramLength\<close> undefined the sum is NaN and the
  comparison is false. The branch that prints \<^verbatim>\<open>'Path data ended short'\<close> has no
  \<^verbatim>\<open>return\<close>: the loop goes on with \<^verbatim>\<open>token\<close> as it was.
\<close>

definition take_params ::
  "PathToken list \<Rightarrow> ParseState \<Rightarrow> nat \<Rightarrow> nat option \<Rightarrow> string \<Rightarrow> step" where
  "take_params tokens st index1 paramLength tokenValue1 =
    (case paramLength of
       None \<Rightarrow> ended_short st index1 tokenValue1
     | Some n \<Rightarrow>
         if index1 + n < length tokens then
           (case read_params tokens [index1 ..< index1 + n] [] of
              Undefined \<Rightarrow> Return (Inl TypeError)
            | NotANumber numbeToken \<Rightarrow>
                Return (Inr (this_segments st, console st @
                  [''Param not a number: '' @ tokenValue1 @ '','' @ text' numbeToken]))
            | Params params \<Rightarrow>
                if PARAMS_LENGTH tokenValue1 \<noteq> None then
                  Continue (st\<lparr>index := index1 + n,
                    token := get_at tokens (index1 + n),
                    tokenValue := (if tokenValue1 = ''M'' then ''L''
                                   else if tokenValue1 = ''m'' then ''l''
                                   else tokenValue1),
                    this_segments := this_segments st @
                      [\<lparr>key = tokenValue1, data = params, point = None\<rparr>]\<rparr>)
                else Return (Inr (this_segments st,
                       console st @ [''Bad segment: '' @ tokenValue1])))
         else ended_short st index1 tokenValue1)"

definition parse_step :: "PathToken list \<Rightarrow> ParseState \<Rightarrow> step" where
  "parse_step tokens st =
    (case token st of
       None \<Rightarrow> Return (Inl TypeError)
     | Some tok \<Rightarrow>
        if isPathTokenType tok END_OF_D then Return (Inr (this_segments st, console st))
        else if tokenValue st = ''BEGIN_OF_D'' \<and> \<not> (text' tok = ''M'' \<or> text' tok = ''m'')
        then Reparse
        else (case select_command st tok of
                (index1, paramLength, tokenValue1) \<Rightarrow>
                  take_params tokens st index1 paramLength tokenValue1))"

definition initial :: "PathToken list \<Rightarrow> string list \<Rightarrow> ParseState" where
  "initial tokens out =
     \<lparr>index = 0, token = get_at tokens 0, tokenValue = ''BEGIN_OF_D'', this_segments = [],
      console = out\<rparr>"

text \<open>
  The loop may run forever, so it is a partial function: \<open>None\<close> is a call that does not
  return. The recursive call of \<^verbatim>\<open>parseData\<close> is followed by \<^verbatim>\<open>return\<close>, so
  its result is the result of the caller.
\<close>

partial_function (option) parseData_loop ::
  "string \<Rightarrow> PathToken list \<Rightarrow> ParseState \<Rightarrow> ParseResult option" where
  "parseData_loop d tokens st =
    (case parse_step tokens st of
       Return r \<Rightarrow> Some r
     | Reparse \<Rightarrow>
         parseData_loop (''M0,0'' @ d) (tokenize (''M0,0'' @ d))
           (initial (tokenize (''M0,0'' @ d)) (console st))
     | Continue st' \<Rightarrow> parseData_loop d tokens st')"

definition parseData :: "string \<Rightarrow> ParseResult option" where
  "parseData d = parseData_loop d (tokenize d) (initial (tokenize d) [])"

subsection \<open>The point resolver\<close>

text \<open>
  The \<^verbatim>\<open>switch\<close> of \<^verbatim>\<open>processPoints\<close>: the value of \<^verbatim>\<open>s.point\<close> after it. A key
  without a case, and a close command with no \<^verbatim>\<open>first\<close>, leave the field as it was.
  The reads \<^verbatim>\<open>s.data[i]\<close> are \<open>data s ! i\<close>; a segment built by the parser has all the
  parameters its key reads.
\<close>

definition resolve :: "Segment \<Rightarrow> Point \<Rightarrow> Point option \<Rightarrow> Point option" where
  "resolve s currentPoint first =
    (let k = key s; d = data s; cx = fst currentPoint; cy = snd currentPoint in
     if k = ''M'' \<or> k = ''L'' \<or> k = ''T'' then Some (d ! 0, d ! 1)
     else if k = ''m'' \<or> k = ''l'' \<or> k = ''t'' then Some (d ! 0 + cx, d ! 1 + cy)
     else if k = ''H'' then Some (d ! 0, cy)
     else if k = ''h'' then Some (d ! 0 + cx, cy)
     else if k = ''V'' then Some (cx, d ! 0)
     else if k = ''v'' then Some (cx, d ! 0 + cy)
     else if k = ''z'' \<or> k = ''Z'' then
       (case first of Some f \<Rightarrow> Some (fst f, snd f) | None \<Rightarrow> point s)
     else if k = ''C'' then Some (d ! 4, d ! 5)
     else if k = ''c'' then Some (d ! 4 + cx, d ! 5 + cy)
     else if k = ''S'' then Some (d ! 2, d ! 3)
     else if k = ''s'' then Some (d ! 2 + cx, d ! 3 + cy)
     else if k = ''Q'' then Some (d ! 2, d ! 3)
     else if k = ''q'' then Some (d ! 2 + cx, d ! 3 + cy)
     else if k = ''A'' then Some (d ! 5, d ! 6)
     else if k = ''a'' then Some (d ! 5 + cx, d ! 6 + cy)
     else point s)"

fun processPoints_loop :: "Segment list \<Rightarrow> Point option \<Rightarrow> Point \<Rightarrow> Segment list" where
  "processPoints_loop [] first currentPoint = []"
| "processPoints_loop (s # rest) first currentPoint =
    (let s1 = s\<lparr>point := resolve s currentPoint first\<rparr>;
         first1 = (if key s = ''m'' \<or> key s = ''M'' then None else first);
         currentPoint1 = (case point s1 of Some p \<Rightarrow> p | None \<Rightarrow> currentPoint);
         first2 = (case point s1 of
                     Some p \<Rightarrow> (case first1 of None \<Rightarrow> Some p | Some f \<Rightarrow> Some f)
                   | None \<Rightarrow> first1);
         first3 = (if key s = ''z'' \<or> key s = ''Z'' then None else first2)
     in s1 # processPoints_loop rest first3 currentPoint1)"

definition processPoints :: "Segment list \<Rightarrow> Segment list" where
  "processPoints segs = processPoints_loop segs None (Num 0, Num 0)"

text \<open>
  \<^verbatim>\<open>new ParsedPath(d)\<close>: the object when the constructor returns, the TypeError when it
  throws, \<open>None\<close> when it does not return. The field \<^verbatim>\<open>_closed\<close> is the cache of the
  getter \<^verbatim>\<open>closed\<close>.
\<close>

record ParsedPath =
  segments :: "Segment list"
  closed_cache :: "bool option"

definition new_ParsedPath :: "string \<Rightarrow> (error + ParsedPath) option" where
  "new_ParsedPath d =
    (case parseData d of
       None \<Rightarrow> None
     | Some (Inl e) \<Rightarrow> Some (Inl e)
     | Some (Inr (segs, out)) \<Rightarrow>
         Some (Inr \<lparr>segments = processPoints segs, closed_cache = None\<rparr>))"

definition toLowerCase :: "string \<Rightarrow> string" where
  "toLowerCase s =
     map (\<lambda>c. case map_of (zip ''ABCDEFGHIJKLMNOPQRSTUVWXYZ'' ''abcdefghijklmnopqrstuvwxyz'') c of
                Some l \<Rightarrow> l
              | None \<Rightarrow> c) s"

definition closed_scan :: "Segment list \<Rightarrow> bool" where
  "closed_scan segs = fold (\<lambda>s c. if toLowerCase (key s) = ''z'' then True else c) segs False"

definition get_closed :: "ParsedPath \<Rightarrow> bool \<times> ParsedPath" where
  "get_closed p =
    (case closed_cache p of
       None \<Rightarrow> (closed_scan (segments p), p\<lparr>closed_cache := Some (closed_scan (segments p))\<rparr>)
     | Some c \<Rightarrow> (c, p))"

subsection \<open>The path view\<close>

record RoughPath =
  parsed :: ParsedPath
  position_field :: Point
  first_field :: "Point option"
  linearPoints_cache :: "Point list list option"
  bezierReflectionPoint :: "Point option"
  quadReflectionPoint :: "Point option"

definition new_RoughPath :: "string \<Rightarrow> (error + RoughPath) option" where
  "new_RoughPath d =
    (case new_ParsedPath d of
       None \<Rightarrow> None
     | Some (Inl e) \<Rightarrow> Some (Inl e)
     | Some (Inr p) \<Rightarrow>
         Some (Inr \<lparr>parsed = p, position_field = (Num 0, Num 0), first_field = None,
                    linearPoints_cache = None, bezierReflectionPoint = None,
                    quadReflectionPoint = None\<rparr>))"

text \<open>
  The loop of the getter \<^verbatim>\<open>linearPoints\<close>, with the lists \<^verbatim>\<open>lp\<close> and
  \<^verbatim>\<open>points\<close>, and the flush after the loop.
\<close>

fun linearPoints_loop :: "Segment list \<Rightarrow> Point list list \<Rightarrow> Point list \<Rightarrow> Point list list" where
  "linearPoints_loop [] lp points = (if points \<noteq> [] then lp @ [points] else lp)"
| "linearPoints_loop (s # rest) lp points =
    (let k = toLowerCase (key s);
         flush = ((k = ''m'' \<or> k = ''z'') \<and> points \<noteq> []);
         lp1 = (if flush then lp @ [points] else lp);
         points1 = (if flush then [] else points)
     in if k = ''z'' then linearPoints_loop rest lp1 points1
        else (case point s of
                Some p \<Rightarrow> linearPoints_loop rest lp1 (points1 @ [p])
              | None \<Rightarrow> linearPoints_loop rest lp1 points1))"

definition get_linearPoints :: "RoughPath \<Rightarrow> Point list list \<times> RoughPath" where
  "get_linearPoints r =
    (case linearPoints_cache r of
       None \<Rightarrow>
         (let lp = linearPoints_loop (segments (parsed r)) [] []
          in (lp, r\<lparr>linearPoints_cache := Some lp\<rparr>))
     | Some lp \<Rightarrow> (lp, r))"

definition get_segments :: "RoughPath \<Rightarrow> Segment list" where
  "get_segments r = segments (parsed r)"

definition get_closed_path :: "RoughPath \<Rightarrow> bool \<times> RoughPath" where
  "get_closed_path r = (fst (get_closed (parsed r)), r\<lparr>parsed := snd (get_closed (parsed r))\<rparr>)"

definition setPosition :: "number \<Rightarrow> number \<Rightarrow> RoughPath \<Rightarrow> RoughPath" where
  "setPosition x y r =
    (let r1 = r\<lparr>position_field := (x, y)\<rparr>
     in (case first_field r1 of None \<Rightarrow> r1\<lparr>first_field := Some (x, y)\<rparr> | Some f \<Rightarrow> r1))"

definition get_position :: "RoughPath \<Rightarrow> Point" where
  "get_position r = position_field r"

definition get_first :: "RoughPath \<Rightarrow> Point option" where
  "get_first r = first_field r"

definition set_first :: "Point option \<Rightarrow> RoughPath \<Rightarrow> RoughPath" where
  "set_first v r = r\<lparr>first_field := v\<rparr>"

section \<open>The arc converter\<close>

text \<open>
  A private field \<^verbatim>\<open>_name\<close> of the class is the field \<open>name'\<close> of the record.
\<close>

record RoughArcSegment =
  cp1 :: Point
  cp2 :: Point
  to :: Point

record RoughArcConverter =
  segIndex' :: number
  numSegs' :: number
  rx' :: number
  ry' :: number
  sinPhi' :: number
  cosPhi' :: number
  C' :: Point
  theta' :: number
  delta' :: number
  T' :: number
  from' :: Point

definition calculateVectorAngle :: "number \<Rightarrow> number \<Rightarrow> number \<Rightarrow> number \<Rightarrow> number" where
  "calculateVectorAngle ux uy vx vy =
    (let ta = Math_atan2 uy ux;
         tb = Math_atan2 vy vx
     in if tb \<ge> ta then tb - ta
        else Num 2 * Math_PI - (ta - tb))"

text \<open>The field initializers.\<close>

definition initial_converter :: "Point \<Rightarrow> RoughArcConverter" where
  "initial_converter from =
     \<lparr>segIndex' = Num 0, numSegs' = Num 0, rx' = Num 0, ry' = Num 0, sinPhi' = Num 0,
      cosPhi' = Num 0, C' = (Num 0, Num 0), theta' = Num 0, delta' = Num 0, T' = Num 0,
      from' = from\<rparr>"

text \<open>What the constructor has computed when it reaches the line that sets \<^verbatim>\<open>_numSegs\<close>.\<close>

record ArcGeometry =
  g_rx :: number
  g_ry :: number
  g_sinPhi :: number
  g_cosPhi :: number
  g_C :: Point
  g_theta :: number
  g_dtheta :: number

text \<open>
  The constructor after the test of the endpoints, in the order of the source. First
  \<^verbatim>\<open>_sinPhi\<close>, \<^verbatim>\<open>_cosPhi\<close>, \<^verbatim>\<open>x1dash\<close> and \<^verbatim>\<open>y1dash\<close>.
\<close>

definition arc_primed ::
  "Point \<Rightarrow> Point \<Rightarrow> number \<Rightarrow> number \<times> number \<times> number \<times> number" where
  "arc_primed from to_pt angle =
    (let radPerDeg = Math_PI / Num 180;
         sinPhi = Math_sin (angle * radPerDeg);
         cosPhi = Math_cos (angle * radPerDeg);
         x1dash = cosPhi * (fst from - fst to_pt) / Num 2
                    + sinPhi * (snd from - snd to_pt) / Num 2;
         y1dash = - sinPhi * (fst from - fst to_pt) / Num 2
                    + cosPhi * (snd from - snd to_pt) / Num 2
     in (sinPhi, cosPhi, x1dash, y1dash))"

text \<open>
  Then \<^verbatim>\<open>numerator\<close> and the \<^verbatim>\<open>if\<close> on its sign: the values of \<^verbatim>\<open>_rx\<close>,
  \<^verbatim>\<open>_ry\<close> and \<^verbatim>\<open>root\<close> after it, from \<^verbatim>\<open>_rx\<close> and \<^verbatim>\<open>_ry\<close> before it.
\<close>

definition arc_radii ::
  "number \<Rightarrow> number \<Rightarrow> number \<Rightarrow> number \<Rightarrow> bool \<Rightarrow> bool \<Rightarrow> number \<times> number \<times> number" where
  "arc_radii rx ry x1dash y1dash largeArcFlag sweepFlag =
    (let numerator = rx * rx * ry * ry - rx * rx * y1dash * y1dash - ry * ry * x1dash * x1dash
     in if numerator < Num 0 then
          (let s = Math_sqrt (Num 1 - (numerator / (rx * rx * ry * ry)))
           in (rx * s, ry * s, Num 0))
        else
          (rx, ry,
           (if largeArcFlag = sweepFlag then Num (- 1) else Num 1) *
             Math_sqrt (numerator / (rx * rx * y1dash * y1dash + ry * ry * x1dash * x1dash))))"

text \<open>
  \<^verbatim>\<open>_theta\<close>, and \<^verbatim>\<open>dtheta\<close> after its adjustment by the sweep flag.
\<close>

definition arc_angles ::
  "number \<Rightarrow> number \<Rightarrow> number \<Rightarrow> number \<Rightarrow> number \<Rightarrow> number \<Rightarrow> bool \<Rightarrow>
   number \<times> number" where
  "arc_angles rx ry x1dash y1dash cxdash cydash sweepFlag =
    (let theta = calculateVectorAngle (Num 1) (Num 0)
                   ((x1dash - cxdash) / rx) ((y1dash - cydash) / ry);
         dtheta = calculateVectorAngle ((x1dash - cxdash) / rx) ((y1dash - cydash) / ry)
                    ((- x1dash - cxdash) / rx) ((- y1dash - cydash) / ry)
     in if \<not> sweepFlag \<and> dtheta > Num 0 then (theta, dtheta - Num 2 * Math_PI)
        else if sweepFlag \<and> dtheta < Num 0 then (theta, dtheta + Num 2 * Math_PI)
        else (theta, dtheta))"

text \<open>The three steps in a row, with the centre between the second and the third.\<close>

definition arc_geometry ::
  "Point \<Rightarrow> Point \<Rightarrow> Point \<Rightarrow> number \<Rightarrow> bool \<Rightarrow> bool \<Rightarrow> ArcGeometry" where
  "arc_geometry from to_pt radii angle largeArcFlag sweepFlag =
    (case arc_primed from to_pt angle of
       (sinPhi, cosPhi, x1dash, y1dash) \<Rightarrow>
    (case arc_radii (Math_abs (fst radii)) (Math_abs (snd radii)) x1dash y1dash
            largeArcFlag sweepFlag of
       (rx, ry, root') \<Rightarrow>
    (let cxdash = root' * rx * y1dash / ry;
         cydash = - root' * ry * x1dash / rx;
         C = (cosPhi * cxdash - sinPhi * cydash + (fst from + fst to_pt) / Num 2,
              sinPhi * cxdash + cosPhi * cydash + (snd from + snd to_pt) / Num 2)
     in (case arc_angles rx ry x1dash y1dash cxdash cydash sweepFlag of
           (theta, dtheta) \<Rightarrow>
             \<lparr>g_rx = rx, g_ry = ry, g_sinPhi = sinPhi, g_cosPhi = cosPhi, g_C = C,
              g_theta = theta, g_dtheta = dtheta\<rparr>))))"

text \<open>
  The constructor: the early return with the field initializers when the endpoints are
  equal, else the geometry, the number of segments, \<^verbatim>\<open>_delta\<close> and \<^verbatim>\<open>_T\<close>.
\<close>

definition new_RoughArcConverter ::
  "Point \<Rightarrow> Point \<Rightarrow> Point \<Rightarrow> number \<Rightarrow> bool \<Rightarrow> bool \<Rightarrow> RoughArcConverter" where
  "new_RoughArcConverter from to_pt radii angle largeArcFlag sweepFlag =
    (if strict_eq (fst from) (fst to_pt) \<and> strict_eq (snd from) (snd to_pt)
     then initial_converter from
     else
      (let g = arc_geometry from to_pt radii angle largeArcFlag sweepFlag;
           numSegs = Math_ceil (Math_abs (g_dtheta g / (Math_PI / Num 2)));
           delta = g_dtheta g / numSegs;
           T = (Num 8 / Num 3) * Math_sin (delta / Num 4) * Math_sin (delta / Num 4)
                 / Math_sin (delta / Num 2)
       in \<lparr>segIndex' = Num 0, numSegs' = numSegs, rx' = g_rx g, ry' = g_ry g,
           sinPhi' = g_sinPhi g, cosPhi' = g_cosPhi g, C' = g_C g, theta' = g_theta g,
           delta' = delta, T' = T, from' = from\<rparr>))"

text \<open>\<^verbatim>\<open>getNextSegment\<close>: the result, null as \<open>None\<close>, and the converter after the call.\<close>

definition getNextSegment ::
  "RoughArcConverter \<Rightarrow> RoughArcSegment option \<times> RoughArcConverter" where
  "getNextSegment this =
    (if strict_eq (segIndex' this) (numSegs' this) then (None, this)
     else
      (let cosTheta1 = Math_cos (theta' this);
           sinTheta1 = Math_sin (theta' this);
           theta2 = theta' this + delta' this;
           cosTheta2 = Math_cos theta2;
           sinTheta2 = Math_sin theta2;
           to_pt = (cosPhi' this * rx' this * cosTheta2 - sinPhi' this * ry' this * sinTheta2
                   + fst (C' this),
                 sinPhi' this * rx' this * cosTheta2 + cosPhi' this * ry' this * sinTheta2
                   + snd (C' this));
           cp1 = (fst (from' this) + T' this *
                    (- cosPhi' this * rx' this * sinTheta1
                     - sinPhi' this * ry' this * cosTheta1),
                  snd (from' this) + T' this *
                    (- sinPhi' this * rx' this * sinTheta1
                     + cosPhi' this * ry' this * cosTheta1));
           cp2 = (fst to_pt + T' this *
                    (cosPhi' this * rx' this * sinTheta2
                     + sinPhi' this * ry' this * cosTheta2),
                  snd to_pt + T' this *
                    (sinPhi' this * rx' this * sinTheta2
                     - cosPhi' this * ry' this * cosTheta2))
       in (Some \<lparr>cp1 = cp1, cp2 = cp2, to = to_pt\<rparr>,
           this\<lparr>theta' := theta2, from' := (fst to_pt, snd to_pt),
                segIndex' := segIndex' this + Num 1\<rparr>)))"

text \<open>The results of the first \<open>n\<close> calls of \<^verbatim>\<open>getNextSegment\<close>.\<close>

fun getSegments :: "nat \<Rightarrow> RoughArcConverter \<Rightarrow> RoughArcSegment option list" where
  "getSegments 0 this = []"
| "getSegments (Suc n) this =
     fst (getNextSegment this) # getSegments n (snd (getNextSegment this))"

text \<open>The number of results other than null among them.\<close>

definition count_segments :: "nat \<Rightarrow> RoughArcConverter \<Rightarrow> nat" where
  "count_segments n this = length (filter (\<lambda>r. r \<noteq> None) (getSegments n this))"

section \<open>The path fitter\<close>

text \<open>
  \<^verbatim>\<open>lineLength\<close> is imported from \<^verbatim>\<open>./geometry\<close>, which is not part of the sources
  at hand; the fitter takes it as a parameter, a function from a line (an array of two points)
  to a number. The conversion of a number to a string, which \<^verbatim>\<open>fit\<close> applies when it
  concatenates, is the parameter \<open>toString\<close>.
\<close>

type_synonym Line = "Point \<times> Point"

record PathFitter =
  sets :: "Point list list"
  closed' :: bool

text \<open>
  The body of the \<^verbatim>\<open>for\<close> loop of \<^verbatim>\<open>reduce\<close>: the area by Heron's formula and the
  update of \<^verbatim>\<open>minArea\<close> and \<^verbatim>\<open>minIndex\<close>. The array \<^verbatim>\<open>areas\<close> is written and
  never read. The loop visits the indices from 1 to \<^verbatim>\<open>points.length - 2\<close>, where the
  three reads of \<^verbatim>\<open>points\<close> are in range.
\<close>

definition triangle_area :: "(Line \<Rightarrow> number) \<Rightarrow> Point \<Rightarrow> Point \<Rightarrow> Point \<Rightarrow> number" where
  "triangle_area lineLength p q r =
    (let a = lineLength (p, q);
         b = lineLength (q, r);
         c = lineLength (p, r);
         s = (a + b + c) / Num 2
     in Math_sqrt (s * (s - a) * (s - b) * (s - c)))"

definition min_step ::
  "(Line \<Rightarrow> number) \<Rightarrow> Point list \<Rightarrow> nat \<Rightarrow> number \<times> int \<Rightarrow> number \<times> int" where
  "min_step lineLength points i m =
    (let area = triangle_area lineLength (points ! (i - 1)) (points ! i) (points ! (i + 1))
     in if fst m < Num 0 \<or> area < fst m then (area, int i) else m)"

definition min_scan :: "(Line \<Rightarrow> number) \<Rightarrow> Point list \<Rightarrow> number \<times> int" where
  "min_scan lineLength points =
     fold (min_step lineLength points) [1 ..< length points - 1] (Num (- 1), - 1)"

text \<open>\<^verbatim>\<open>points.splice(i, 1)\<close>\<close>

definition splice1 :: "'a list \<Rightarrow> nat \<Rightarrow> 'a list" where
  "splice1 xs i = take i xs @ drop (i + 1) xs"

text \<open>The \<^verbatim>\<open>while\<close> loop of \<^verbatim>\<open>reduce\<close>, with its \<^verbatim>\<open>break\<close> when no index was found.\<close>

function reduce_loop :: "(Line \<Rightarrow> number) \<Rightarrow> Point list \<Rightarrow> number \<Rightarrow> Point list" where
  "reduce_loop lineLength points count =
    (if Num (real (length points)) > count then
       (let minIndex = snd (min_scan lineLength points)
        in if minIndex > 0 then reduce_loop lineLength (splice1 points (nat minIndex)) count
           else points)
     else points)"
  by pat_completeness auto
termination
proof (relation "measure (\<lambda>(lineLength, points, count). length points)")
  fix lineLength :: "Line \<Rightarrow> number" and points :: "Point list" and count :: number
    and minIndex
  assume scan: "minIndex = snd (min_scan lineLength points)" and pos: "0 < minIndex"
  have "snd (fold (min_step lineLength points) idxs m) \<in> insert (snd m) (int ` set idxs)"
    for idxs m
  proof (induction idxs arbitrary: m)
    case Nil
    show ?case by simp
  next
    case (Cons i idxs)
    have "snd (min_step lineLength points i m) \<in> {snd m, int i}"
      by (simp add: min_step_def Let_def)
    with Cons[of "min_step lineLength points i m"] show ?case by auto
  qed
  from this[of "[1 ..< length points - 1]" "(Num (- 1), - 1)"] scan pos
  have "nat minIndex < length points"
    by (auto simp: min_scan_def)
  then show "((lineLength, splice1 points (nat minIndex), count), lineLength, points, count)
         \<in> measure (\<lambda>(lineLength, points, count). length points)"
    by (simp add: splice1_def)
qed simp

declare reduce_loop.simps [simp del]

text \<open>\<^verbatim>\<open>reduce\<close>: the early return, then the loop on a copy of the list.\<close>

definition reduce :: "(Line \<Rightarrow> number) \<Rightarrow> Point list \<Rightarrow> number \<Rightarrow> Point list" where
  "reduce lineLength set' count =
    (if Num (real (length set')) \<le> count then set' else reduce_loop lineLength set' count)"

text \<open>
  \<^verbatim>\<open>fit\<close>. The first loop fills \<^verbatim>\<open>outSets\<close>; \<^verbatim>\<open>continue\<close> leaves a set out.
\<close>

fun fit_collect ::
  "(Line \<Rightarrow> number) \<Rightarrow> number \<Rightarrow> Point list list \<Rightarrow> Point list list \<Rightarrow> Point list list" where
  "fit_collect lineLength simplification [] outSets = outSets"
| "fit_collect lineLength simplification (set' # rest) outSets =
    (let length' = length set';
         estLength = Math_floor (simplification * Num (real length'))
     in if estLength < Num 5 then
          (if length' \<le> 5 then fit_collect lineLength simplification rest outSets
           else fit_collect lineLength simplification rest
                  (outSets @ [reduce lineLength set' (Num 5)]))
        else fit_collect lineLength simplification rest
               (outSets @ [reduce lineLength set' estLength]))"

text \<open>The second loop builds the string.\<close>

definition fit_point :: "(number \<Rightarrow> string) \<Rightarrow> Point list \<Rightarrow> nat \<Rightarrow> string \<Rightarrow> string" where
  "fit_point toString set' i d =
    (let point = set' ! i in
     if i = 0 then d @ ''M'' @ toString (fst point) @ '','' @ toString (snd point)
     else d @ ''L'' @ toString (fst point) @ '','' @ toString (snd point))"

definition fit_set :: "(number \<Rightarrow> string) \<Rightarrow> bool \<Rightarrow> Point list \<Rightarrow> string \<Rightarrow> string" where
  "fit_set toString closed_flag set' d =
    (let d1 = fold (fit_point toString set') [0 ..< length set'] d
     in if closed_flag then d1 @ ''z '' else d1)"

definition fit :: "(Line \<Rightarrow> number) \<Rightarrow> (number \<Rightarrow> string) \<Rightarrow> PathFitter \<Rightarrow> number \<Rightarrow> string" where
  "fit lineLength toString this simplification =
    (let outSets = fit_collect lineLength simplification (sets this) []
     in fold (fit_set toString (closed' this)) outSets [])"

section \<open>Notions used in the statements\<close>

text \<open>A segment has as many parameters as a table gives for its key.\<close>

definition has_arity :: "(string \<Rightarrow> nat option) \<Rightarrow> Segment \<Rightarrow> bool" where
  "has_arity table s = (table (key s) = Some (length (data s)))"

text \<open>
  The table as the specification prints it, with four parameters for both cases of T. It is
  compared with \<open>PARAMS_LENGTH\<close>, the table of the source.
\<close>

definition claimed_PARAMS_LENGTH :: "string \<Rightarrow> nat option" where
  "claimed_PARAMS_LENGTH k =
    (if k = ''A'' \<or> k = ''a'' then Some 7
     else if k = ''C'' \<or> k = ''c'' then Some 6
     else if k = ''H'' \<or> k = ''h'' then Some 1
     else if k = ''L'' \<or> k = ''l'' then Some 2
     else if k = ''M'' \<or> k = ''m'' then Some 2
     else if k = ''Q'' \<or> k = ''q'' then Some 4
     else if k = ''S'' \<or> k = ''s'' then Some 4
     else if k = ''T'' \<or> k = ''t'' then Some 4
     else if k = ''V'' \<or> k = ''v'' then Some 1
     else if k = ''Z'' \<or> k = ''z'' then Some 0
     else None)"

text \<open>
  The test \<^verbatim>\<open>(index + paramLength) < tokens.length\<close> fails, and a state of the loop in
  which it fails now and in every later turn: the token is not the end marker, the first
  command has been read, and the parameters of the command do not fit.
\<close>

definition short_of :: "PathToken list \<Rightarrow> nat \<Rightarrow> nat option \<Rightarrow> bool" where
  "short_of tokens i paramLength =
     (case paramLength of None \<Rightarrow> True | Some n \<Rightarrow> \<not> i + n < length tokens)"

definition stuck :: "PathToken list \<Rightarrow> ParseState \<Rightarrow> bool" where
  "stuck tokens st =
    (case token st of
       None \<Rightarrow> False
     | Some tok \<Rightarrow>
         type tok \<noteq> END_OF_D \<and> tokenValue st \<noteq> ''BEGIN_OF_D'' \<and> text' tok \<noteq> ''BEGIN_OF_D'' \<and>
         (if type tok = NUMBER then short_of tokens (index st) (PARAMS_LENGTH (tokenValue st))
          else short_of tokens (index st + 1) (PARAMS_LENGTH (text' tok))))"

text \<open>
  A description in the words of the specification: a list of commands, each a command letter
  with the groups of parameters that follow it. After a letter come one or more groups, each
  of as many numbers as the table gives for the letter; a letter without parameters has the
  one empty group. The first group makes a segment of the letter, and every further group
  (a run of numbers without a repeated letter) a segment of the same command, which after
  \<^verbatim>\<open>M\<close> is \<^verbatim>\<open>L\<close> and after \<^verbatim>\<open>m\<close> is \<^verbatim>\<open>l\<close>. A number is given by its
  literal.
\<close>

type_synonym command = "string \<times> string list list"

definition repeat_key :: "string \<Rightarrow> string" where
  "repeat_key k = (if k = ''M'' then ''L'' else if k = ''m'' then ''l'' else k)"

definition well_formed :: "(string \<Rightarrow> nat option) \<Rightarrow> command \<Rightarrow> bool" where
  "well_formed table c =
    (case table (fst c) of
       None \<Rightarrow> False
     | Some n \<Rightarrow> snd c \<noteq> [] \<and> list_all (\<lambda>g. length g = n) (snd c) \<and>
                 (0 < n \<or> length (snd c) = 1))"

definition starts_with_move :: "command list \<Rightarrow> bool" where
  "starts_with_move cs = (case cs of [] \<Rightarrow> True | c # rest \<Rightarrow> fst c = ''M'' \<or> fst c = ''m'')"

text \<open>The tokens of such a description, with the end marker.\<close>

definition number_token :: "string \<Rightarrow> PathToken" where
  "number_token lit = \<lparr>type = NUMBER, text' = lit\<rparr>"

definition command_token :: "string \<Rightarrow> PathToken" where
  "command_token k = \<lparr>type = COMMAND, text' = k\<rparr>"

definition end_token :: PathToken where
  "end_token = \<lparr>type = END_OF_D, text' = []\<rparr>"

definition tokens_of_command :: "command \<Rightarrow> PathToken list" where
  "tokens_of_command c = command_token (fst c) # map number_token (concat (snd c))"

definition tokens_of :: "command list \<Rightarrow> PathToken list" where
  "tokens_of cs = concat (map tokens_of_command cs) @ [end_token]"

text \<open>The segments that the specification asks for: one for each group, in order.\<close>

definition segment_of :: "string \<Rightarrow> string list \<Rightarrow> Segment" where
  "segment_of k g = \<lparr>key = k, data = map parseFloat g, point = None\<rparr>"

definition segments_of_command :: "command \<Rightarrow> Segment list" where
  "segments_of_command c =
    (case snd c of
       [] \<Rightarrow> []
     | g # gs \<Rightarrow> segment_of (fst c) g # map (segment_of (repeat_key (fst c))) gs)"

definition segments_of :: "command list \<Rightarrow> Segment list" where
  "segments_of cs = concat (map segments_of_command cs)"


text \<open>
  The state of the loop at the top of a turn in which \<^verbatim>\<open>token\<close> is
  \<^verbatim>\<open>tokens[index]\<close>, as it is at the start and after every segment.
\<close>

definition at_state ::
  "PathToken list \<Rightarrow> nat \<Rightarrow> string \<Rightarrow> Segment list \<Rightarrow> string list \<Rightarrow> ParseState" where
  "at_state tokens i tv segs out =
    \<lparr>index = i, token = get_at tokens i, tokenValue = tv, this_segments = segs, console = out\<rparr>"


text \<open>The objects that the examples build.\<close>

definition square_path :: RoughPath where
  "square_path =
    \<lparr>parsed =
       \<lparr>segments = [\<lparr>key = ''M'', data = [Num 0, Num 0], point = Some (Num 0, Num 0)\<rparr>,
                    \<lparr>key = ''L'', data = [Num 10, Num 0], point = Some (Num 10, Num 0)\<rparr>,
                    \<lparr>key = ''L'', data = [Num 10, Num 10], point = Some (Num 10, Num 10)\<rparr>,
                    \<lparr>key = ''Z'', data = [], point = Some (Num 0, Num 0)\<rparr>],
        closed_cache = None\<rparr>,
     position_field = (Num 0, Num 0), first_field = None, linearPoints_cache = None,
     bezierReflectionPoint = None, quadReflectionPoint = None\<rparr>"

definition smooth_path :: ParsedPath where
  "smooth_path =
     \<lparr>segments = [\<lparr>key = ''M'', data = [Num 0, Num 0], point = Some (Num 0, Num 0)\<rparr>,
                  \<lparr>key = ''t'', data = [Num 1, Num 2], point = Some (Num 1, Num 2)\<rparr>,
                  \<lparr>key = ''t'', data = [Num 3, Num 4], point = Some (Num 4, Num 6)\<rparr>],
      closed_cache = None\<rparr>"


text \<open>
  The fitter in the words of the specification: the target count of a subpath, the subpaths
  that are dropped, the path syntax of a list of points, and the output.
\<close>

definition target_count :: "number \<Rightarrow> Point list \<Rightarrow> number" where
  "target_count r s =
    (let estLength = Math_floor (r * Num (real (length s)))
     in if estLength < Num 5 then Num 5 else estLength)"

definition dropped :: "number \<Rightarrow> Point list \<Rightarrow> bool" where
  "dropped r s = (length s \<le> 5 \<and> Math_floor (r * Num (real (length s))) < Num 5)"

fun serialize :: "(number \<Rightarrow> string) \<Rightarrow> Point list \<Rightarrow> string" where
  "serialize toString [] = []"
| "serialize toString (p # ps) =
     ''M'' @ toString (fst p) @ '','' @ toString (snd p) @
     concat (map (\<lambda>q. ''L'' @ toString (fst q) @ '','' @ toString (snd q)) ps)"

definition fit_spec ::
  "(Line \<Rightarrow> number) \<Rightarrow> (number \<Rightarrow> string) \<Rightarrow> PathFitter \<Rightarrow> number \<Rightarrow> string" where
  "fit_spec lineLength toString this r =
     concat (map (\<lambda>s. serialize toString (reduce lineLength s (target_count r s)) @
                      (if closed' this then ''z '' else []))
               (filter (\<lambda>s. \<not> dropped r s) (sets this)))"



definition six_points :: "Point list" where
  "six_points =
     [(Num 0, Num 0), (Num 1, Num 0), (Num 2, Num 0), (Num 3, Num 0), (Num 4, Num 0),
      (Num 5, Num 0)]"

definition five_points :: "Point list" where
  "five_points =
     [(Num 0, Num 0), (Num 2, Num 0), (Num 3, Num 0), (Num 4, Num 0), (Num 5, Num 0)]"

definition x_distance :: "Line \<Rightarrow> number" where
  "x_distance l = Math_abs (fst (snd l) - fst (fst l))"

definition digit_string :: "number \<Rightarrow> string" where
  "digit_string n =
    (if n = Num 0 then ''0'' else if n = Num 1 then ''1'' else if n = Num 2 then ''2''
     else if n = Num 3 then ''3'' else if n = Num 4 then ''4'' else if n = Num 5 then ''5''
     else ''?'')"

section \<open>Properties of the numbers\<close>

lemma num_arith [simp]:
  "Num x + Num y = Num (x + y)"
  "Num x - Num y = Num (x - y)"
  "Num x * Num y = Num (x * y)"
  "Num x / Num y = (if y = 0 then NaN else Num (x / y))"
  "- Num x = Num (- x)"
  "(Num x < Num y) = (x < y)"
  "(Num x \<le> Num y) = (x \<le> y)"
  "strict_eq (Num x) (Num y) = (x = y)"
  by (simp_all add: plus_number_def minus_number_def times_number_def divide_number_def
      uminus_number_def less_number_def less_eq_number_def strict_eq_def)

lemma nan_arith [simp]:
  "NaN + a = NaN" "a + NaN = NaN" "NaN - a = NaN" "a - NaN = NaN"
  "NaN * a = NaN" "a * NaN = NaN" "NaN / a = NaN" "a / NaN = NaN" "- NaN = NaN"
  "\<not> NaN < a" "\<not> a < NaN" "\<not> NaN \<le> a" "\<not> a \<le> NaN"
  "\<not> strict_eq NaN a" "\<not> strict_eq a NaN"
  by (simp_all add: plus_number_def minus_number_def times_number_def divide_number_def
      uminus_number_def less_number_def less_eq_number_def strict_eq_def split: number.splits)

lemma math_num [simp]:
  "Math_abs (Num x) = Num \<bar>x\<bar>"
  "Math_sin (Num x) = Num (sin x)"
  "Math_cos (Num x) = Num (cos x)"
  "Math_sqrt (Num x) = (if x < 0 then NaN else Num (sqrt x))"
  "Math_ceil (Num x) = Num (of_int \<lceil>x\<rceil>)"
  "Math_floor (Num x) = Num (of_int \<lfloor>x\<rfloor>)"
  "Math_atan2 (Num y) (Num x) = Num (atan2 y x)"
  by (simp_all add: Math_abs_def Math_sin_def Math_cos_def Math_sqrt_def Math_ceil_def
      Math_floor_def Math_atan2_def)

lemma math_nan [simp]:
  "Math_abs NaN = NaN" "Math_sin NaN = NaN" "Math_cos NaN = NaN" "Math_sqrt NaN = NaN"
  "Math_ceil NaN = NaN" "Math_floor NaN = NaN" "Math_atan2 NaN a = NaN" "Math_atan2 a NaN = NaN"
  by (simp_all add: Math_abs_def Math_sin_def Math_cos_def Math_sqrt_def Math_ceil_def
      Math_floor_def Math_atan2_def split: number.splits)

section \<open>Properties of the parser\<close>

subsection \<open>Evaluation\<close>

lemmas token_defs = tokenize_def tokenize_loop.simps is_separator_def is_command_def
  match_number_def match_mantissa1_def match_mantissa2_def match_exponent_def match_sign_def
  is_digit_def is_sign_def Let_def

lemmas number_defs = parseFloat_def match_exponent_def match_sign_def is_digit_def is_sign_def
  Let_def digits_value_def digit_value_def exponent_value_def

lemmas step_defs = parse_step_def select_command_def take_params_def initial_def get_at_def
  isPathTokenType_def PARAMS_LENGTH_def ended_short_def upt_rec

lemmas point_defs = new_RoughPath_def new_ParsedPath_def processPoints_def resolve_def Let_def

lemma tokens_square: "tokenize ''M0,0 L10,0 L10,10 Z'' =
  [\<lparr>type = COMMAND, text' = ''M''\<rparr>, \<lparr>type = NUMBER, text' = ''0''\<rparr>,
   \<lparr>type = NUMBER, text' = ''0''\<rparr>, \<lparr>type = COMMAND, text' = ''L''\<rparr>,
   \<lparr>type = NUMBER, text' = ''10''\<rparr>, \<lparr>type = NUMBER, text' = ''0''\<rparr>,
   \<lparr>type = COMMAND, text' = ''L''\<rparr>, \<lparr>type = NUMBER, text' = ''10''\<rparr>,
   \<lparr>type = NUMBER, text' = ''10''\<rparr>, \<lparr>type = COMMAND, text' = ''Z''\<rparr>,
   \<lparr>type = END_OF_D, text' = []\<rparr>]"
  by (simp add: token_defs)

lemma parse_square: "parseData ''M0,0 L10,0 L10,10 Z'' =
  Some (Inr ([\<lparr>key = ''M'', data = [Num 0, Num 0], point = None\<rparr>,
              \<lparr>key = ''L'', data = [Num 10, Num 0], point = None\<rparr>,
              \<lparr>key = ''L'', data = [Num 10, Num 10], point = None\<rparr>,
              \<lparr>key = ''Z'', data = [], point = None\<rparr>], []))"
  unfolding parseData_def tokens_square
  by (simp add: parseData_loop.simps step_defs number_defs)

lemma tokens_smooth: "tokenize ''M0,0 t1,2,3,4'' =
  [\<lparr>type = COMMAND, text' = ''M''\<rparr>, \<lparr>type = NUMBER, text' = ''0''\<rparr>,
   \<lparr>type = NUMBER, text' = ''0''\<rparr>, \<lparr>type = COMMAND, text' = ''t''\<rparr>,
   \<lparr>type = NUMBER, text' = ''1''\<rparr>, \<lparr>type = NUMBER, text' = ''2''\<rparr>,
   \<lparr>type = NUMBER, text' = ''3''\<rparr>, \<lparr>type = NUMBER, text' = ''4''\<rparr>,
   \<lparr>type = END_OF_D, text' = []\<rparr>]"
  by (simp add: token_defs)

lemma parse_smooth: "parseData ''M0,0 t1,2,3,4'' =
  Some (Inr ([\<lparr>key = ''M'', data = [Num 0, Num 0], point = None\<rparr>,
              \<lparr>key = ''t'', data = [Num 1, Num 2], point = None\<rparr>,
              \<lparr>key = ''t'', data = [Num 3, Num 4], point = None\<rparr>], []))"
  unfolding parseData_def tokens_smooth
  by (simp add: parseData_loop.simps step_defs number_defs)

lemma new_smooth: "new_ParsedPath ''M0,0 t1,2,3,4'' = Some (Inr smooth_path)"
  by (simp add: point_defs parse_smooth smooth_path_def)




lemma tokens_short: "tokenize ''M0,0 L5'' =
  [\<lparr>type = COMMAND, text' = ''M''\<rparr>, \<lparr>type = NUMBER, text' = ''0''\<rparr>,
   \<lparr>type = NUMBER, text' = ''0''\<rparr>, \<lparr>type = COMMAND, text' = ''L''\<rparr>,
   \<lparr>type = NUMBER, text' = ''5''\<rparr>, \<lparr>type = END_OF_D, text' = []\<rparr>]"
  by (simp add: token_defs)

lemma tokens_repeated: "tokenize ''M0,0,5,5,7,7 Z'' =
  [\<lparr>type = COMMAND, text' = ''M''\<rparr>, \<lparr>type = NUMBER, text' = ''0''\<rparr>,
   \<lparr>type = NUMBER, text' = ''0''\<rparr>, \<lparr>type = NUMBER, text' = ''5''\<rparr>,
   \<lparr>type = NUMBER, text' = ''5''\<rparr>, \<lparr>type = NUMBER, text' = ''7''\<rparr>,
   \<lparr>type = NUMBER, text' = ''7''\<rparr>, \<lparr>type = COMMAND, text' = ''Z''\<rparr>,
   \<lparr>type = END_OF_D, text' = []\<rparr>]"
  by (simp add: token_defs)

lemmas command_defs = well_formed_def starts_with_move_def tokens_of_def tokens_of_command_def
  segments_of_def segments_of_command_def segment_of_def repeat_key_def command_token_def
  number_token_def end_token_def






subsection \<open>Input that the tokenizer rejects\<close>

lemma tokenize_failure_TypeError: "tokenize d = [] \<Longrightarrow> parseData d = Some (Inl TypeError)"
  by (simp add: parseData_def parseData_loop.simps parse_step_def initial_def get_at_def)

text \<open>
  Claim C1. An input with a character sequence that no branch of the tokenizer matches is to
  give an empty segment list, silently and without an exception. The tokenizer does return the
  empty token list, but \<^verbatim>\<open>parseData\<close> then reads \<^verbatim>\<open>tokens[0]\<close>, which is undefined,
  and tests its type: constructing the path for \<^verbatim>\<open>"M0,0 #"\<close> throws a TypeError.
\<close>

theorem unrecognized_input_throws: "new_RoughPath ''M0,0 #'' = Some (Inl TypeError)"
proof -
  have "tokenize ''M0,0 #'' = []"
    by (simp add: token_defs)
  then show ?thesis
    by (simp add: new_RoughPath_def new_ParsedPath_def tokenize_failure_TypeError)
qed

subsection \<open>Input that ends short\<close>

lemma take_params_short:
  "short_of tokens i pl \<Longrightarrow> take_params tokens st i pl tv = ended_short st i tv"
  by (simp add: take_params_def short_of_def split: option.splits)

lemma step_when_short:
  assumes "token st = Some tok" and "type tok \<noteq> END_OF_D" and "tokenValue st \<noteq> ''BEGIN_OF_D''"
  shows "type tok = NUMBER \<Longrightarrow> short_of tokens (index st) (PARAMS_LENGTH (tokenValue st)) \<Longrightarrow>
           parse_step tokens st = ended_short st (index st) (tokenValue st)"
    and "type tok \<noteq> NUMBER \<Longrightarrow> short_of tokens (index st + 1) (PARAMS_LENGTH (text' tok)) \<Longrightarrow>
           parse_step tokens st = ended_short st (index st + 1) (text' tok)"
  using assms
  by (simp_all add: parse_step_def select_command_def isPathTokenType_def take_params_short)

lemma stuck_step:
  assumes "stuck tokens st"
  shows "\<exists>st'. parse_step tokens st = Continue st' \<and> stuck tokens st'"
proof -
  from assms obtain tok where tok: "token st = Some tok"
    by (cases "token st") (simp_all add: stuck_def)
  with assms have ne: "type tok \<noteq> END_OF_D" "tokenValue st \<noteq> ''BEGIN_OF_D''"
      "text' tok \<noteq> ''BEGIN_OF_D''"
    and sh: "if type tok = NUMBER
             then short_of tokens (index st) (PARAMS_LENGTH (tokenValue st))
             else short_of tokens (index st + 1) (PARAMS_LENGTH (text' tok))"
    by (simp_all add: stuck_def split: if_splits)
  show ?thesis
  proof (cases "type tok = NUMBER")
    case True
    with sh have s: "short_of tokens (index st) (PARAMS_LENGTH (tokenValue st))"
      by simp
    from step_when_short(1)[OF tok ne(1,2) True s] tok ne True s show ?thesis
      by (simp add: ended_short_def stuck_def)
  next
    case False
    with sh have s: "short_of tokens (index st + 1) (PARAMS_LENGTH (text' tok))"
      by simp
    have s': "short_of tokens (index st + 1 + 1) (PARAMS_LENGTH (text' tok))"
      using s by (auto simp: short_of_def split: option.splits)
    from step_when_short(2)[OF tok ne(1,2) False s] tok ne False s' show ?thesis
      by (simp add: ended_short_def stuck_def)
  qed
qed

text \<open>
  No call that reaches a stuck state returns: by fixpoint induction, a returning call was
  never stuck.
\<close>

lemma stuck_never_returns:
  assumes "parseData_loop d tokens st = Some r"
  shows "\<not> stuck tokens st"
proof (rule parseData_loop.raw_induct
    [where P = "\<lambda>d tokens st r. \<not> stuck tokens st", OF _ assms])
  fix loop :: "string \<Rightarrow> PathToken list \<Rightarrow> ParseState \<Rightarrow> ParseResult option"
    and d tokens st r
  assume IH: "\<And>d' tokens' st' r'. loop d' tokens' st' = Some r' \<Longrightarrow> \<not> stuck tokens' st'"
  assume eq: "(case parse_step tokens st of Return r \<Rightarrow> Some r
     | Reparse \<Rightarrow> loop (''M0,0'' @ d) (tokenize (''M0,0'' @ d))
           (initial (tokenize (''M0,0'' @ d)) (console st))
     | Continue st' \<Rightarrow> loop d tokens st') = Some r"
  show "\<not> stuck tokens st"
  proof
    assume "stuck tokens st"
    then obtain st' where s: "parse_step tokens st = Continue st'" and st': "stuck tokens st'"
      using stuck_step by blast
    from s eq have "loop d tokens st' = Some r"
      by simp
    from IH[OF this] st' show False
      by simp
  qed
qed

lemma stuck_diverges: "stuck tokens st \<Longrightarrow> parseData_loop d tokens st = None"
  using stuck_never_returns by (cases "parseData_loop d tokens st") auto

text \<open>
  Claim C2. When the tokens end before the parameters of the active command are complete,
  parsing is to stop and return the segments read so far; for \<^verbatim>\<open>"M0,0 L5"\<close> a list with
  the M segment alone. The other two error branches of the loop return after their
  \<^verbatim>\<open>console.error\<close>; this one does not, and the loop variable \<^verbatim>\<open>token\<close> keeps its
  value, so the loop prints the diagnostic for ever: the call does not return.
\<close>

theorem truncated_input_never_returns: "parseData ''M0,0 L5'' = None"
  unfolding parseData_def tokens_short
  apply (subst parseData_loop.simps)
  apply (simp add: step_defs number_defs)
  apply (rule stuck_diverges)
  apply (simp add: stuck_def short_of_def PARAMS_LENGTH_def)
  done

subsection \<open>The number of parameters of a segment\<close>

lemma read_params_length:
  "read_params tokens idxs acc = Params ps \<Longrightarrow> length ps = length acc + length idxs"
  by (induction idxs arbitrary: acc) (auto split: option.splits if_splits)

lemma step_return_segments:
  "parse_step tokens st = Return (Inr (segs, out)) \<Longrightarrow> segs = this_segments st"
  by (auto simp: parse_step_def take_params_def ended_short_def
      split: option.splits if_splits prod.splits params_result.splits)

lemma step_continue_arity:
  assumes "parse_step tokens st = Continue st'"
    and "list_all (has_arity PARAMS_LENGTH) (this_segments st)"
  shows "list_all (has_arity PARAMS_LENGTH) (this_segments st')"
  using assms
  by (auto simp: parse_step_def select_command_def take_params_def ended_short_def has_arity_def
      split: option.splits if_splits prod.splits params_result.splits
      dest!: read_params_length)

lemma loop_arity:
  assumes "parseData_loop d tokens st = Some r"
  shows "list_all (has_arity PARAMS_LENGTH) (this_segments st) \<longrightarrow>
     (\<forall>segs out. r = Inr (segs, out) \<longrightarrow> list_all (has_arity PARAMS_LENGTH) segs)"
proof (rule parseData_loop.raw_induct
    [where P = "\<lambda>d tokens st r. list_all (has_arity PARAMS_LENGTH) (this_segments st) \<longrightarrow>
     (\<forall>segs out. r = Inr (segs, out) \<longrightarrow> list_all (has_arity PARAMS_LENGTH) segs)", OF _ assms])
  fix loop :: "string \<Rightarrow> PathToken list \<Rightarrow> ParseState \<Rightarrow> ParseResult option"
    and d tokens st r
  assume IH: "\<And>d' tokens' st' r'. loop d' tokens' st' = Some r' \<Longrightarrow>
    list_all (has_arity PARAMS_LENGTH) (this_segments st') \<longrightarrow>
     (\<forall>segs out. r' = Inr (segs, out) \<longrightarrow> list_all (has_arity PARAMS_LENGTH) segs)"
  assume eq: "(case parse_step tokens st of Return r \<Rightarrow> Some r
     | Reparse \<Rightarrow> loop (''M0,0'' @ d) (tokenize (''M0,0'' @ d))
           (initial (tokenize (''M0,0'' @ d)) (console st))
     | Continue st' \<Rightarrow> loop d tokens st') = Some r"
  show "list_all (has_arity PARAMS_LENGTH) (this_segments st) \<longrightarrow>
     (\<forall>segs out. r = Inr (segs, out) \<longrightarrow> list_all (has_arity PARAMS_LENGTH) segs)"
  proof (cases "parse_step tokens st")
    case (Return x)
    with eq show ?thesis
      by (auto dest: step_return_segments)
  next
    case Reparse
    with eq have "loop (''M0,0'' @ d) (tokenize (''M0,0'' @ d))
           (initial (tokenize (''M0,0'' @ d)) (console st)) = Some r"
      by simp
    from IH[OF this] show ?thesis
      by (simp add: initial_def)
  next
    case (Continue st')
    with eq have "loop d tokens st' = Some r"
      by simp
    from IH[OF this] step_continue_arity[OF Continue] show ?thesis
      by blast
  qed
qed

lemma processPoints_loop_keeps:
  "map key (processPoints_loop segs first cur) = map key segs \<and>
   map data (processPoints_loop segs first cur) = map data segs"
  by (induction segs arbitrary: first cur) (simp_all add: Let_def)

lemma processPoints_arity:
  "list_all (has_arity table) (processPoints segs) = list_all (has_arity table) segs"
proof -
  have "list_all (has_arity table) xs =
      list_all (\<lambda>(k, d). table k = Some (length d)) (zip (map key xs) (map data xs))" for xs
    by (induction xs) (simp_all add: has_arity_def)
  then show ?thesis
    by (simp add: processPoints_def processPoints_loop_keeps)
qed

subsection \<open>Well-formed descriptions\<close>

text \<open>
  The loop on the tokens of a well-formed list of commands: every turn finds the parameters
  of its command, makes the segment and moves the index behind them.
\<close>

lemma read_params_numbers:
  "length pre = i \<Longrightarrow>
   read_params (pre @ map number_token g @ post) [i ..< i + length g] acc =
     Params (acc @ map parseFloat g)"
proof (induction g arbitrary: pre i acc)
  case Nil
  then show ?case by simp
next
  case (Cons x g)
  have "i < i + length (x # g)"
    by simp
  from upt_conv_Cons[OF this]
  have idx: "[i ..< i + length (x # g)] = i # [Suc i ..< Suc i + length g]"
    by (simp del: upt_Suc)
  have tok: "get_at (pre @ map number_token (x # g) @ post) i = Some (number_token x)"
    using Cons.prems by (simp add: get_at_def nth_append)
  have split: "pre @ map number_token (x # g) @ post =
      (pre @ [number_token x]) @ map number_token g @ post"
    by simp
  have "read_params ((pre @ [number_token x]) @ map number_token g @ post)
      [Suc i ..< Suc i + length g] (acc @ [parseFloat x]) =
      Params ((acc @ [parseFloat x]) @ map parseFloat g)"
    by (rule Cons.IH) (simp add: Cons.prems)
  then show ?case
    unfolding idx
    by (simp only: read_params.simps tok split[symmetric])
      (simp add: isPathTokenType_def number_token_def)
qed

lemma table_key:
  assumes "PARAMS_LENGTH k = Some n"
  shows "k \<noteq> ''BEGIN_OF_D''" and "PARAMS_LENGTH (repeat_key k) = Some n"
    and "repeat_key k \<noteq> ''BEGIN_OF_D''" and "repeat_key (repeat_key k) = repeat_key k"
  using assms by (auto simp: PARAMS_LENGTH_def repeat_key_def split: if_splits)

lemma get_at_append: "length pre = i \<Longrightarrow> get_at (pre @ x # post) i = Some x"
  by (auto simp: get_at_def)

lemma take_params_numbers:
  assumes "read_params tokens [i1 ..< i1 + n] [] = Params ps" and "i1 + n < length tokens"
    and "PARAMS_LENGTH k = Some m"
  shows "take_params tokens (at_state tokens i tv segs out) i1 (Some n) k =
    Continue (at_state tokens (i1 + n) (repeat_key k)
      (segs @ [\<lparr>key = k, data = ps, point = None\<rparr>]) out)"
  using assms(2,3) unfolding take_params_def at_state_def repeat_key_def
  by (simp only: option.case assms(1) params_result.case) simp

lemma parse_step_select:
  assumes "token st = Some tok" and "type tok \<noteq> END_OF_D"
    and "tokenValue st = ''BEGIN_OF_D'' \<longrightarrow> text' tok = ''M'' \<or> text' tok = ''m''"
  shows "parse_step tokens st =
    (case select_command st tok of
       (index1, paramLength, tokenValue1) \<Rightarrow> take_params tokens st index1 paramLength tokenValue1)"
  using assms by (auto simp: parse_step_def isPathTokenType_def)

text \<open>A turn at a command letter that is followed by its parameters.\<close>

lemma step_command:
  assumes "PARAMS_LENGTH k = Some (length g)" and "post \<noteq> []"
    and "tv = ''BEGIN_OF_D'' \<longrightarrow> k = ''M'' \<or> k = ''m''"
    and T: "tokens = pre @ command_token k # map number_token g @ post"
  shows "parse_step tokens (at_state tokens (length pre) tv segs out) =
    Continue (at_state tokens (length pre + 1 + length g) (repeat_key k)
      (segs @ [segment_of k g]) out)"
proof -
  have tok: "get_at tokens (length pre) = Some (command_token k)"
    unfolding T by (rule get_at_append) simp
  have T': "tokens = (pre @ [command_token k]) @ map number_token g @ post"
    by (simp add: T)
  have rp: "read_params tokens [length pre + 1 ..< length pre + 1 + length g] [] =
      Params ([] @ map parseFloat g)"
    unfolding T' by (rule read_params_numbers) simp
  have len: "length pre + 1 + length g < length tokens"
    using assms(2) by (cases post) (simp_all add: T)
  have sel: "select_command (at_state tokens (length pre) tv segs out) (command_token k) =
      (length pre + 1, Some (length g), k)"
    using assms(1) by (simp add: select_command_def at_state_def command_token_def
        isPathTokenType_def)
  note tk = take_params_numbers[OF rp len assms(1), of "length pre" tv segs out]
  have "parse_step tokens (at_state tokens (length pre) tv segs out) =
      take_params tokens (at_state tokens (length pre) tv segs out) (length pre + 1)
        (Some (length g)) k"
    by (subst parse_step_select[where tok = "command_token k"])
      (use assms(3) tok in \<open>simp_all add: sel, simp_all add: at_state_def command_token_def\<close>)
  then show ?thesis
    by (simp only: tk) (simp add: segment_of_def)
qed


text \<open>A turn at a number: the active command is repeated.\<close>

lemma step_number:
  assumes "PARAMS_LENGTH k = Some (length g)" and "g \<noteq> []" and "post \<noteq> []"
    and "k \<noteq> ''BEGIN_OF_D''"
    and T: "tokens = pre @ map number_token g @ post"
  shows "parse_step tokens (at_state tokens (length pre) k segs out) =
    Continue (at_state tokens (length pre + length g) (repeat_key k)
      (segs @ [segment_of k g]) out)"
proof -
  from assms(2) obtain x g' where g: "g = x # g'"
    by (cases g) simp_all
  have tok: "get_at tokens (length pre) = Some (number_token x)"
    unfolding T g by (simp add: get_at_append)
  have rp: "read_params tokens [length pre ..< length pre + length g] [] =
      Params ([] @ map parseFloat g)"
    unfolding T by (rule read_params_numbers) simp
  have len: "length pre + length g < length tokens"
    using assms(3) by (cases post) (simp_all add: T)
  have sel: "select_command (at_state tokens (length pre) k segs out) (number_token x) =
      (length pre, Some (length g), k)"
    using assms(1,4) by (simp add: select_command_def at_state_def number_token_def
        isPathTokenType_def)
  note tk = take_params_numbers[OF rp len assms(1), of "length pre" k segs out]
  have "parse_step tokens (at_state tokens (length pre) k segs out) =
      take_params tokens (at_state tokens (length pre) k segs out) (length pre)
        (Some (length g)) k"
    by (subst parse_step_select[where tok = "number_token x"])
      (use assms(4) tok in \<open>simp_all add: sel, simp_all add: at_state_def number_token_def\<close>)
  then show ?thesis
    by (simp only: tk) (simp add: segment_of_def)
qed

text \<open>A run of numbers after the first group of a command: one segment for each group.\<close>

lemma loop_groups:
  assumes "PARAMS_LENGTH k = Some n" and "0 < n" and "repeat_key k = k" and "post \<noteq> []"
  shows "list_all (\<lambda>g. length g = n) gs \<Longrightarrow>
    tokens = pre @ map number_token (concat gs) @ post \<Longrightarrow>
    parseData_loop d tokens (at_state tokens (length pre) k segs out) =
    parseData_loop d tokens (at_state tokens (length pre + length (concat gs)) k
      (segs @ map (segment_of k) gs) out)"
proof (induction gs arbitrary: pre segs)
  case Nil
  then show ?case by simp
next
  case (Cons g gs)
  from Cons.prems(1) assms(2) have g: "length g = n" "g \<noteq> []" and gs: "list_all (\<lambda>g. length g = n) gs"
    by auto
  have T: "tokens = pre @ map number_token g @ (map number_token (concat gs) @ post)"
    using Cons.prems(2) by simp
  have T': "tokens = (pre @ map number_token g) @ map number_token (concat gs) @ post"
    using Cons.prems(2) by simp
  from assms(1) g have pl: "PARAMS_LENGTH k = Some (length g)"
    by simp
  have step: "parse_step tokens (at_state tokens (length pre) k segs out) =
    Continue (at_state tokens (length pre + length g) k (segs @ [segment_of k g]) out)"
    using step_number[OF pl g(2) _ table_key(1)[OF assms(1)] T, of segs out] assms(3,4)
    by simp
  have "parseData_loop d tokens (at_state tokens (length pre) k segs out) =
      parseData_loop d tokens (at_state tokens (length (pre @ map number_token g)) k
        (segs @ [segment_of k g]) out)"
    by (subst parseData_loop.simps) (simp add: step)
  also have "\<dots> = parseData_loop d tokens
      (at_state tokens (length (pre @ map number_token g) + length (concat gs)) k
        ((segs @ [segment_of k g]) @ map (segment_of k) gs) out)"
    by (rule Cons.IH[OF gs T'])
  finally show ?case
    by (simp add: add.assoc)
qed

text \<open>A command letter with its groups of parameters.\<close>

lemma loop_command:
  assumes wf: "well_formed PARAMS_LENGTH c" and "post \<noteq> []"
    and "tv = ''BEGIN_OF_D'' \<longrightarrow> fst c = ''M'' \<or> fst c = ''m''"
    and T: "tokens = pre @ tokens_of_command c @ post"
  shows "parseData_loop d tokens (at_state tokens (length pre) tv segs out) =
    parseData_loop d tokens (at_state tokens (length (pre @ tokens_of_command c))
      (repeat_key (fst c)) (segs @ segments_of_command c) out)"
proof -
  obtain k gs0 where c: "c = (k, gs0)"
    by (cases c)
  from wf obtain n where n: "PARAMS_LENGTH k = Some n" and ne: "gs0 \<noteq> []"
    and all: "list_all (\<lambda>g. length g = n) gs0" and one: "0 < n \<or> length gs0 = 1"
    by (auto simp: well_formed_def c split: option.splits)
  from ne obtain g gs where gs0: "gs0 = g # gs"
    by (cases gs0) simp_all
  from all have g: "length g = n" and gs: "list_all (\<lambda>g. length g = n) gs"
    by (simp_all add: gs0)
  have T1: "tokens = pre @ command_token k # map number_token g @
      (map number_token (concat gs) @ post)"
    by (simp add: T c gs0 tokens_of_command_def)
  have T2: "tokens = (pre @ command_token k # map number_token g) @
      map number_token (concat gs) @ post"
    by (simp add: T1)
  from n g have pl: "PARAMS_LENGTH k = Some (length g)"
    by simp
  have step: "parse_step tokens (at_state tokens (length pre) tv segs out) =
    Continue (at_state tokens (length pre + 1 + length g) (repeat_key k)
      (segs @ [segment_of k g]) out)"
    by (rule step_command[OF pl _ _ T1]) (use assms(2,3) in \<open>simp_all add: c\<close>)
  have first: "parseData_loop d tokens (at_state tokens (length pre) tv segs out) =
      parseData_loop d tokens
        (at_state tokens (length (pre @ command_token k # map number_token g)) (repeat_key k)
          (segs @ [segment_of k g]) out)"
    by (subst parseData_loop.simps) (simp add: step)
  show ?thesis
  proof (cases "gs = []")
    case True
    with first show ?thesis
      by (simp add: c gs0 tokens_of_command_def segments_of_command_def)
  next
    case False
    with one have pos: "0 < n"
      by (cases gs) (simp_all add: gs0)
    note rest = loop_groups[OF table_key(2)[OF n] pos table_key(4)[OF n] assms(2) gs T2,
        of d "segs @ [segment_of k g]" out]
    from first rest show ?thesis
      by (simp add: c gs0 tokens_of_command_def segments_of_command_def add.assoc)
  qed
qed

text \<open>A list of commands up to the end marker.\<close>

lemma loop_commands:
  "list_all (well_formed PARAMS_LENGTH) cs \<Longrightarrow>
   tv = ''BEGIN_OF_D'' \<longrightarrow> starts_with_move cs \<Longrightarrow>
   tokens = pre @ tokens_of cs \<Longrightarrow>
   parseData_loop d tokens (at_state tokens (length pre) tv segs out) =
     Some (Inr (segs @ segments_of cs, out))"
proof (induction cs arbitrary: pre tv segs)
  case Nil
  then have "get_at tokens (length pre) = Some end_token"
    by (simp add: tokens_of_def get_at_append)
  then have "parse_step tokens (at_state tokens (length pre) tv segs out) =
      Return (Inr (segs, out))"
    by (simp add: parse_step_def at_state_def end_token_def isPathTokenType_def)
  then show ?case
    by (subst parseData_loop.simps) (simp add: segments_of_def)
next
  case (Cons c cs)
  from Cons.prems(1) have wf: "well_formed PARAMS_LENGTH c"
    and wfs: "list_all (well_formed PARAMS_LENGTH) cs"
    by simp_all
  have T: "tokens = pre @ tokens_of_command c @ tokens_of cs"
    using Cons.prems(3) by (simp add: tokens_of_def)
  have T': "tokens = (pre @ tokens_of_command c) @ tokens_of cs"
    by (simp add: T)
  have post: "tokens_of cs \<noteq> []"
    by (simp add: tokens_of_def)
  from Cons.prems(2) have mv: "tv = ''BEGIN_OF_D'' \<longrightarrow> fst c = ''M'' \<or> fst c = ''m''"
    by (simp add: starts_with_move_def)
  from wf obtain n where n: "PARAMS_LENGTH (fst c) = Some n"
    by (auto simp: well_formed_def split: option.splits)
  have "parseData_loop d tokens (at_state tokens (length pre) tv segs out) =
    parseData_loop d tokens (at_state tokens (length (pre @ tokens_of_command c))
      (repeat_key (fst c)) (segs @ segments_of_command c) out)"
    by (rule loop_command[OF wf post mv T])
  also have "\<dots> = Some (Inr ((segs @ segments_of_command c) @ segments_of cs, out))"
    by (rule Cons.IH[OF wfs _ T']) (simp add: table_key(3)[OF n])
  finally show ?case
    by (simp add: segments_of_def)
qed

lemma parse_commands:
  assumes "list_all (well_formed PARAMS_LENGTH) cs" and "starts_with_move cs"
    and "tokenize d = tokens_of cs"
  shows "parseData d = Some (Inr (segments_of cs, []))"
  using loop_commands[OF assms(1), of "''BEGIN_OF_D''" "tokenize d" "[]" d "[]" "[]"] assms(2,3)
  by (simp add: parseData_def initial_def at_state_def)

lemma keys_and_data:
  "map key (processPoints segs) = map key segs \<and> map data (processPoints segs) = map data segs"
  by (simp add: processPoints_def processPoints_loop_keeps)

subsection \<open>The table of the parameters\<close>

text \<open>
  Claim C3, as stated: the parser takes for every command letter the number of parameters of
  the printed table, in which both \<^verbatim>\<open>T\<close> and \<^verbatim>\<open>t\<close> take four. The source has
  \<^verbatim>\<open>t: 2\<close>: the four numbers after \<^verbatim>\<open>t\<close> in \<^verbatim>\<open>"M0,0 t1,2,3,4"\<close> become two
  segments of two parameters each, not one segment of four.
\<close>

theorem lower_t_takes_two:
  "new_ParsedPath ''M0,0 t1,2,3,4'' = Some (Inr smooth_path) \<and>
   map key (segments smooth_path) = [''M'', ''t'', ''t''] \<and>
   \<not> list_all (has_arity claimed_PARAMS_LENGTH) (segments smooth_path)"
  by (simp add: new_smooth) (simp add: smooth_path_def has_arity_def claimed_PARAMS_LENGTH_def)

text \<open>
  Claim C3, amended: the table is A/a 7, C/c 6, H/h 1, L/l 2, M/m 2, Q/q 4, S/s 4, T 4, t 2,
  V/v 1, Z/z 0, and the parser takes for every segment exactly the number of parameters that
  this table gives for its command. For every description whose tokens are those of a
  well-formed list of commands that starts with a move, the call returns, without a
  diagnostic, exactly the segments of the list: each group of parameters is one segment, in
  order, no token is skipped and none is read twice; the constructed path has these keys and
  parameters. And whatever the description is, every segment of a path that the constructor
  returns has exactly the number of parameters of the table.
\<close>

theorem segments_have_table_arity:
  "map PARAMS_LENGTH
     [''A'', ''a'', ''C'', ''c'', ''H'', ''h'', ''L'', ''l'', ''M'', ''m'',
      ''Q'', ''q'', ''S'', ''s'', ''T'', ''t'', ''V'', ''v'', ''Z'', ''z''] =
   map Some [7, 7, 6, 6, 1, 1, 2, 2, 2, 2, 4, 4, 4, 4, 4, 2, 1, 1, 0, 0] \<and>
   (\<forall>d cs. list_all (well_formed PARAMS_LENGTH) cs \<and> starts_with_move cs \<and>
       tokenize d = tokens_of cs \<longrightarrow>
      parseData d = Some (Inr (segments_of cs, [])) \<and>
      (\<exists>p. new_ParsedPath d = Some (Inr p) \<and>
           map key (segments p) = map key (segments_of cs) \<and>
           map data (segments p) = map data (segments_of cs))) \<and>
   (\<forall>d p. new_ParsedPath d = Some (Inr p) \<longrightarrow>
      list_all (has_arity PARAMS_LENGTH) (segments p))"
proof (intro conjI allI impI)
  show "map PARAMS_LENGTH
     [''A'', ''a'', ''C'', ''c'', ''H'', ''h'', ''L'', ''l'', ''M'', ''m'',
      ''Q'', ''q'', ''S'', ''s'', ''T'', ''t'', ''V'', ''v'', ''Z'', ''z''] =
   map Some [7, 7, 6, 6, 1, 1, 2, 2, 2, 2, 4, 4, 4, 4, 4, 2, 1, 1, 0, 0]"
    by (simp add: PARAMS_LENGTH_def)
next
  fix d cs
  assume "list_all (well_formed PARAMS_LENGTH) cs \<and> starts_with_move cs \<and>
       tokenize d = tokens_of cs"
  then show parse: "parseData d = Some (Inr (segments_of cs, []))"
    by (simp add: parse_commands)
  show "\<exists>p. new_ParsedPath d = Some (Inr p) \<and>
           map key (segments p) = map key (segments_of cs) \<and>
           map data (segments p) = map data (segments_of cs)"
    by (simp add: new_ParsedPath_def parse keys_and_data)
next
  fix d p
  assume new: "new_ParsedPath d = Some (Inr p)"
  then obtain segs out where parse: "parseData d = Some (Inr (segs, out))"
    and p: "p = \<lparr>segments = processPoints segs, closed_cache = None\<rparr>"
    by (auto simp: new_ParsedPath_def split: option.splits sum.splits)
  from parse
  have "parseData_loop d (tokenize d) (initial (tokenize d) []) = Some (Inr (segs, out))"
    by (simp add: parseData_def)
  from loop_arity[OF this] have "list_all (has_arity PARAMS_LENGTH) segs"
    by (simp add: initial_def)
  with p show "list_all (has_arity PARAMS_LENGTH) (segments p)"
    by (simp add: processPoints_arity)
qed

theorem segments_have_table_arity_witness:
  "parseData ''M0,0 t1,2,3,4'' =
     Some (Inr ([\<lparr>key = ''M'', data = [Num 0, Num 0], point = None\<rparr>,
                 \<lparr>key = ''t'', data = [Num 1, Num 2], point = None\<rparr>,
                 \<lparr>key = ''t'', data = [Num 3, Num 4], point = None\<rparr>], [])) \<and>
   parseData ''M0,0,5,5,7,7 Z'' =
     Some (Inr ([\<lparr>key = ''M'', data = [Num 0, Num 0], point = None\<rparr>,
                 \<lparr>key = ''L'', data = [Num 5, Num 5], point = None\<rparr>,
                 \<lparr>key = ''L'', data = [Num 7, Num 7], point = None\<rparr>,
                 \<lparr>key = ''Z'', data = [], point = None\<rparr>], [])) \<and>
   new_ParsedPath ''M0,0 t1,2,3,4'' = Some (Inr smooth_path) \<and>
   list_all (has_arity PARAMS_LENGTH) (segments smooth_path)"
proof -
  let ?smooth = "[(''M'', [[''0'', ''0'']]), (''t'', [[''1'', ''2''], [''3'', ''4'']])]"
  let ?repeated = "[(''M'', [[''0'', ''0''], [''5'', ''5''], [''7'', ''7'']]), (''Z'', [[]])]"
  have smooth: "list_all (well_formed PARAMS_LENGTH) ?smooth \<and> starts_with_move ?smooth \<and>
      tokenize ''M0,0 t1,2,3,4'' = tokens_of ?smooth"
    by (simp add: tokens_smooth command_defs PARAMS_LENGTH_def)
  have repeated: "list_all (well_formed PARAMS_LENGTH) ?repeated \<and> starts_with_move ?repeated \<and>
      tokenize ''M0,0,5,5,7,7 Z'' = tokens_of ?repeated"
    by (simp add: tokens_repeated command_defs PARAMS_LENGTH_def)
  from segments_have_table_arity
  have parse: "\<And>d cs. list_all (well_formed PARAMS_LENGTH) cs \<and> starts_with_move cs \<and>
       tokenize d = tokens_of cs \<Longrightarrow> parseData d = Some (Inr (segments_of cs, []))"
    and arity: "\<And>d p. new_ParsedPath d = Some (Inr p) \<Longrightarrow>
      list_all (has_arity PARAMS_LENGTH) (segments p)"
    by blast+
  from parse[OF smooth] parse[OF repeated] arity[OF new_smooth] new_smooth show ?thesis
    by (simp add: command_defs number_defs)
qed

subsection \<open>A closed triangle\<close>

text \<open>
  Claim C4. The input \<^verbatim>\<open>"M0,0 L10,0 L10,10 Z"\<close> gives four segments with the points
  (0,0), (10,0), (10,10), (0,0) in this order, \<^verbatim>\<open>closed\<close> is true, and
  \<^verbatim>\<open>linearPoints\<close> is the one subpath (0,0), (10,0), (10,10).
\<close>

theorem closed_triangle_example:
  "new_RoughPath ''M0,0 L10,0 L10,10 Z'' = Some (Inr square_path) \<and>
   length (get_segments square_path) = 4 \<and>
   map point (get_segments square_path) =
     [Some (Num 0, Num 0), Some (Num 10, Num 0), Some (Num 10, Num 10), Some (Num 0, Num 0)] \<and>
   fst (get_closed_path square_path) = True \<and>
   fst (get_linearPoints square_path) = [[(Num 0, Num 0), (Num 10, Num 0), (Num 10, Num 10)]]"
proof -
  have "new_RoughPath ''M0,0 L10,0 L10,10 Z'' = Some (Inr square_path)"
    by (simp add: point_defs parse_square square_path_def)
  moreover have "length (get_segments square_path) = 4"
    by (simp add: get_segments_def square_path_def)
  moreover have "map point (get_segments square_path) =
      [Some (Num 0, Num 0), Some (Num 10, Num 0), Some (Num 10, Num 10), Some (Num 0, Num 0)]"
    by (simp add: get_segments_def square_path_def)
  moreover have "fst (get_closed_path square_path) = True"
    by (simp add: get_closed_path_def get_closed_def closed_scan_def toLowerCase_def
        square_path_def)
  moreover have "fst (get_linearPoints square_path) = [[(Num 0, Num 0), (Num 10, Num 0), (Num 10, Num 10)]]"
    by (simp add: get_linearPoints_def toLowerCase_def square_path_def Let_def)
  ultimately show ?thesis
    by blast
qed

subsection \<open>A description without a leading move\<close>






















section \<open>Properties of the path view\<close>

text \<open>
  Claim C10. After \<^verbatim>\<open>setPosition(x, y)\<close> the position is \<open>(x, y)\<close>; \<^verbatim>\<open>first\<close>
  becomes \<open>(x, y)\<close> when it was null before the call, and keeps its value when it was set.
\<close>

theorem setPosition_sets_first_once:
  "get_position (setPosition x y r) = (x, y) \<and>
   (get_first r = None \<longrightarrow> get_first (setPosition x y r) = Some (x, y)) \<and>
   (get_first r \<noteq> None \<longrightarrow> get_first (setPosition x y r) = get_first r)"
  by (simp add: setPosition_def get_position_def get_first_def Let_def split: option.splits)

theorem setPosition_sets_first_once_witness:
  "get_first square_path = None \<and>
   get_position (setPosition (Num 3) (Num 4) square_path) = (Num 3, Num 4) \<and>
   get_first (setPosition (Num 3) (Num 4) square_path) = Some (Num 3, Num 4) \<and>
   get_first (setPosition (Num 3) (Num 4) square_path) \<noteq> None \<and>
   get_position (setPosition (Num 7) (Num 8) (setPosition (Num 3) (Num 4) square_path)) = (Num 7, Num 8) \<and>
   get_first (setPosition (Num 7) (Num 8) (setPosition (Num 3) (Num 4) square_path)) = Some (Num 3, Num 4)"
proof -
  have none: "get_first square_path = None"
    by (simp add: get_first_def square_path_def)
  from setPosition_sets_first_once[of "Num 3" "Num 4" square_path] none
  have one: "get_position (setPosition (Num 3) (Num 4) square_path) = (Num 3, Num 4)"
      "get_first (setPosition (Num 3) (Num 4) square_path) = Some (Num 3, Num 4)"
    by simp_all
  from setPosition_sets_first_once[of "Num 7" "Num 8" "setPosition (Num 3) (Num 4) square_path"] one
  have "get_position (setPosition (Num 7) (Num 8) (setPosition (Num 3) (Num 4) square_path)) = (Num 7, Num 8)"
      "get_first (setPosition (Num 7) (Num 8) (setPosition (Num 3) (Num 4) square_path)) = Some (Num 3, Num 4)"
    by simp_all
  with none one show ?thesis
    by simp
qed

section \<open>Properties of the arc converter\<close>

lemma calculateVectorAngle_nan [simp]:
  "calculateVectorAngle a b NaN c = NaN" "calculateVectorAngle a b c NaN = NaN"
  "calculateVectorAngle NaN a b c = NaN" "calculateVectorAngle a NaN b c = NaN"
  by (simp_all add: calculateVectorAngle_def Let_def Math_PI_def)

subsection \<open>Coincident endpoints\<close>

text \<open>
  Claim C6. A converter constructed with \<^verbatim>\<open>from[0] === to[0]\<close> and
  \<^verbatim>\<open>from[1] === to[1]\<close> produces no segment: the first call of \<^verbatim>\<open>getNextSegment\<close>
  returns null and leaves the converter as it was, so every later call returns null too.
\<close>

theorem coincident_endpoints_give_no_segment:
  assumes "strict_eq (fst from) (fst to_pt)" and "strict_eq (snd from) (snd to_pt)"
  shows "getNextSegment (new_RoughArcConverter from to_pt radii angle largeArcFlag sweepFlag) =
           (None, new_RoughArcConverter from to_pt radii angle largeArcFlag sweepFlag) \<and>
         getSegments n (new_RoughArcConverter from to_pt radii angle largeArcFlag sweepFlag) =
           replicate n None"
proof -
  let ?c = "new_RoughArcConverter from to_pt radii angle largeArcFlag sweepFlag"
  from assms have c: "?c = initial_converter from"
    by (simp add: new_RoughArcConverter_def)
  have stop: "getNextSegment ?c = (None, ?c)"
    by (simp add: c getNextSegment_def initial_converter_def)
  have "getSegments n ?c = replicate n None"
    by (induction n) (simp_all add: stop)
  with stop show ?thesis by simp
qed

theorem coincident_endpoints_give_no_segment_witness:
  "getNextSegment (new_RoughArcConverter (Num 1, Num 2) (Num 1, Num 2) (Num 3, Num 4) (Num 30)
      True False) =
     (None, new_RoughArcConverter (Num 1, Num 2) (Num 1, Num 2) (Num 3, Num 4) (Num 30)
      True False) \<and>
   getSegments 3 (new_RoughArcConverter (Num 1, Num 2) (Num 1, Num 2) (Num 3, Num 4) (Num 30)
      True False) = [None, None, None]"
  using coincident_endpoints_give_no_segment
    [of "(Num 1, Num 2)" "(Num 1, Num 2)" "(Num 3, Num 4)" "Num 30" True False 3]
  by (simp add: numeral_3_eq_3)

subsection \<open>The number of segments\<close>

lemma nan_count_step:
  assumes "numSegs' this = NaN"
  shows "fst (getNextSegment this) \<noteq> None \<and> numSegs' (snd (getNextSegment this)) = NaN"
  using assms by (simp add: getNextSegment_def Let_def)

lemma nan_count: "numSegs' this = NaN \<Longrightarrow> count_segments n this = n"
proof (induction n arbitrary: this)
  case 0
  show ?case by (simp add: count_segments_def)
next
  case (Suc n)
  from nan_count_step[OF Suc.prems] Suc.IH[of "snd (getNextSegment this)"]
  show ?case by (simp add: count_segments_def)
qed



text \<open>
  The same holds whenever one of the radii is zero and the endpoints differ: the constructor
  divides by the radius, \<^verbatim>\<open>dtheta\<close> is NaN, and no call returns null.
\<close>

lemma arc_angles_nan [simp]:
  "snd (arc_angles NaN ry x1 y1 cx cy sf) = NaN"
  "snd (arc_angles rx NaN x1 y1 cx cy sf) = NaN"
  "snd (arc_angles rx ry x1 y1 NaN cy sf) = NaN"
  "snd (arc_angles rx ry x1 y1 cx NaN sf) = NaN"
  by (simp_all add: arc_angles_def Let_def)

lemma arc_radii_zero:
  assumes "p = 0 \<or> q = 0"
  shows "arc_radii (Num p) (Num q) (Num x1) (Num y1) largeArcFlag sweepFlag =
           (NaN, NaN, Num 0) \<or>
         (\<exists>rx ry. arc_radii (Num p) (Num q) (Num x1) (Num y1) largeArcFlag sweepFlag =
           (rx, ry, NaN))"
  using assms by (auto simp: arc_radii_def Let_def)

lemma zero_radius_dtheta_nan:
  assumes "r1 = 0 \<or> r2 = 0"
  shows "g_dtheta (arc_geometry (Num fx, Num fy) (Num tx, Num ty) (Num r1, Num r2) (Num a)
           largeArcFlag sweepFlag) = NaN"
proof -
  obtain sn cs x1 y1 where P: "arc_primed (Num fx, Num fy) (Num tx, Num ty) (Num a) =
           (Num sn, Num cs, Num x1, Num y1)"
    by (simp add: arc_primed_def Let_def Math_PI_def)
  from assms have "\<bar>r1\<bar> = 0 \<or> \<bar>r2\<bar> = 0"
    by simp
  from arc_radii_zero[OF this, of x1 y1 largeArcFlag sweepFlag] show ?thesis
    by (auto simp: arc_geometry_def P Let_def case_prod_beta)
qed

lemma zero_radius_never_ends:
  assumes "r1 = 0 \<or> r2 = 0" and "fx \<noteq> tx \<or> fy \<noteq> ty"
  shows "count_segments n (new_RoughArcConverter (Num fx, Num fy) (Num tx, Num ty)
           (Num r1, Num r2) (Num a) largeArcFlag sweepFlag) = n"
proof (rule nan_count)
  from assms(2) zero_radius_dtheta_nan[OF assms(1)]
  show "numSegs' (new_RoughArcConverter (Num fx, Num fy) (Num tx, Num ty)
           (Num r1, Num r2) (Num a) largeArcFlag sweepFlag) = NaN"
    by (auto simp: new_RoughArcConverter_def Let_def)
qed

subsection \<open>The sweep and the number of segments\<close>














section \<open>Properties of the path fitter\<close>

subsection \<open>The output of \<^verbatim>\<open>fit\<close>\<close>

lemma fit_collect_eq:
  "fit_collect ll r ss acc =
     acc @ map (\<lambda>s. reduce ll s (target_count r s)) (filter (\<lambda>s. \<not> dropped r s) ss)"
  by (induction ss arbitrary: acc) (auto simp: Let_def target_count_def dropped_def)

lemma fold_fit_point:
  "fold (fit_point toString s) idxs d =
     d @ concat (map (\<lambda>i. (if i = 0 then ''M'' else ''L'') @
                          toString (fst (s ! i)) @ '','' @ toString (snd (s ! i))) idxs)"
  by (induction idxs arbitrary: d) (simp_all add: fit_point_def Let_def)

lemma map_tail_indices:
  "map (\<lambda>i. f ((p # ps) ! i)) [Suc 0 ..< Suc (length ps)] = map f ps"
proof -
  have "[Suc 0 ..< Suc (length ps)] = map Suc [0 ..< length ps]"
    by (simp only: map_Suc_upt)
  then have "map (\<lambda>i. f ((p # ps) ! i)) [Suc 0 ..< Suc (length ps)] =
      map (\<lambda>i. f (ps ! i)) [0 ..< length ps]"
    by (simp add: comp_def)
  also have "\<dots> = map f (map (\<lambda>i. ps ! i) [0 ..< length ps])"
    by (simp add: comp_def)
  also have "\<dots> = map f ps"
    by (simp only: map_nth)
  finally show ?thesis .
qed

lemma fit_points_eq:
  "fold (fit_point toString s) [0 ..< length s] d = d @ serialize toString s"
proof (cases s)
  case Nil
  then show ?thesis by simp
next
  case (Cons p ps)
  have idx: "[0 ..< length (p # ps)] = 0 # [Suc 0 ..< Suc (length ps)]"
    by (simp add: upt_rec)
  have rest: "map (\<lambda>i. (if i = 0 then ''M'' else ''L'') @
                 toString (fst ((p # ps) ! i)) @ '','' @ toString (snd ((p # ps) ! i)))
               [Suc 0 ..< Suc (length ps)] =
             map (\<lambda>q. ''L'' @ toString (fst q) @ '','' @ toString (snd q)) ps"
    (is "?l = ?r")
  proof -
    have "?l = map (\<lambda>i. (\<lambda>q. ''L'' @ toString (fst q) @ '','' @ toString (snd q))
                 ((p # ps) ! i)) [Suc 0 ..< Suc (length ps)]"
      by (rule map_cong) auto
    also have "\<dots> = ?r"
      by (rule map_tail_indices)
    finally show ?thesis .
  qed
  have "fold (fit_point toString (p # ps)) [0 ..< length (p # ps)] d =
      d @ ''M'' @ toString (fst p) @ '','' @ toString (snd p) @
        concat (map (\<lambda>i. (if i = 0 then ''M'' else ''L'') @
                 toString (fst ((p # ps) ! i)) @ '','' @ toString (snd ((p # ps) ! i)))
               [Suc 0 ..< Suc (length ps)])"
    unfolding fold_fit_point idx by (simp del: upt_Suc)
  also have "\<dots> = d @ serialize toString (p # ps)"
    using rest by (simp del: upt_Suc)
  finally show ?thesis
    by (simp only: Cons)
qed

lemma fit_set_eq:
  "fit_set toString c s d = d @ serialize toString s @ (if c then ''z '' else [])"
  by (simp add: fit_set_def Let_def fit_points_eq)

lemma fold_fit_set:
  "fold (fit_set toString c) ss d =
     d @ concat (map (\<lambda>s. serialize toString s @ (if c then ''z '' else [])) ss)"
  by (induction ss arbitrary: d) (simp_all add: fit_set_eq)

text \<open>
  Claim C8. For every subpath the target count is \<open>floor(r * length)\<close>, raised to 5 when
  it is below 5; a subpath of at most five points with a target below 5 is left out; every
  other subpath is reduced to its target and written as \<^verbatim>\<open>M\<close> with its first point and
  \<^verbatim>\<open>L\<close> with each further point, followed by \<^verbatim>\<open>"z "\<close> exactly when the fitter was
  constructed with \<^verbatim>\<open>closed\<close> true. The two loops of \<^verbatim>\<open>fit\<close> compute the output so
  described, for every \<^verbatim>\<open>lineLength\<close> and every conversion to strings.
\<close>

theorem fit_is_spec: "fit lineLength toString this r = fit_spec lineLength toString this r"
  by (simp add: fit_def fit_spec_def fit_collect_eq fold_fit_set Let_def comp_def)

lemma reduce_six_points: "reduce x_distance six_points (Num 5) = five_points"
  by (simp add: reduce_def reduce_loop.simps min_scan_def min_step_def triangle_area_def
      x_distance_def splice1_def six_points_def five_points_def Let_def upt_rec)

theorem fit_is_spec_witness:
  "fit x_distance digit_string
     \<lparr>sets = [six_points, [(Num 0, Num 0), (Num 1, Num 0)]], closed' = True\<rparr> (Num (1 / 2)) =
   ''M0,0L2,0L3,0L4,0L5,0z ''"
proof -
  have "fit_spec x_distance digit_string
     \<lparr>sets = [six_points, [(Num 0, Num 0), (Num 1, Num 0)]], closed' = True\<rparr> (Num (1 / 2)) =
   ''M0,0L2,0L3,0L4,0L5,0z ''"
    by (simp add: fit_spec_def dropped_def target_count_def Let_def reduce_six_points)
      (simp add: six_points_def five_points_def digit_string_def)
  then show ?thesis
    by (simp only: fit_is_spec)
qed

subsection \<open>The endpoints under \<^verbatim>\<open>reduce\<close>\<close>

lemma min_scan_index:
  "snd (fold (min_step ll ps) idxs m) \<in> insert (snd m) (int ` set idxs)"
proof (induction idxs arbitrary: m)
  case Nil
  show ?case by simp
next
  case (Cons i idxs)
  have "snd (min_step ll ps i m) \<in> {snd m, int i}"
    by (simp add: min_step_def Let_def)
  with Cons[of "min_step ll ps i m"] show ?case by auto
qed

text \<open>An index that the scan finds is the index of an interior point.\<close>

lemma min_scan_interior:
  assumes "0 < snd (min_scan ll ps)"
  shows "1 \<le> nat (snd (min_scan ll ps)) \<and> nat (snd (min_scan ll ps)) + 1 < length ps"
  using min_scan_index[of ll ps "[1 ..< length ps - 1]" "(Num (- 1), - 1)"] assms
  by (auto simp: min_scan_def)

text \<open>
  The scan finds an index whenever there is an interior point, whatever the areas are: the
  first one is taken because \<^verbatim>\<open>minArea\<close> is still \<open>- 1\<close>.
\<close>

lemma min_scan_found:
  assumes "3 \<le> length ps"
  shows "0 < snd (min_scan ll ps)"
proof -
  have keep: "0 < snd m \<Longrightarrow> 0 < snd (fold (min_step ll ps) idxs m)" if "\<forall>i\<in>set idxs. 0 < i"
    for idxs m
    using that
  proof (induction idxs arbitrary: m)
    case Nil
    then show ?case by simp
  next
    case (Cons i idxs)
    from Cons.prems have "0 < snd (min_step ll ps i m)"
      by (simp add: min_step_def Let_def)
    with Cons show ?case by simp
  qed
  from assms
  have "[Suc 0 ..< length ps - Suc 0] = Suc 0 # [Suc (Suc 0) ..< length ps - Suc 0]"
    by (intro upt_conv_Cons) simp
  then have "min_scan ll ps =
      fold (min_step ll ps) [Suc (Suc 0) ..< length ps - Suc 0]
        (min_step ll ps (Suc 0) (Num (- 1), - 1))"
    by (simp add: min_scan_def)
  moreover have "0 < snd (min_step ll ps (Suc 0) (Num (- 1), - 1))"
    by (simp add: min_step_def Let_def)
  ultimately show ?thesis
    using keep[of "[Suc (Suc 0) ..< length ps - Suc 0]"
        "min_step ll ps (Suc 0) (Num (- 1), - 1)"]
    by simp
qed

lemma splice1_interior:
  assumes "1 \<le> i" and "i + 1 < length xs"
  shows "length (splice1 xs i) = length xs - 1"
    and "hd (splice1 xs i) = hd xs"
    and "last (splice1 xs i) = last xs"
proof -
  show "length (splice1 xs i) = length xs - 1"
    using assms by (simp add: splice1_def)
  from assms have "take i xs \<noteq> []" by auto
  then show "hd (splice1 xs i) = hd xs"
    using assms by (simp add: splice1_def hd_append)
  from assms have "drop (i + 1) xs \<noteq> []" by simp
  then show "last (splice1 xs i) = last xs"
    using assms by (simp add: splice1_def)
qed

lemma reduce_loop_props:
  "2 \<le> length ps \<Longrightarrow>
   length (reduce_loop ll ps c) \<le> length ps \<and> 2 \<le> length (reduce_loop ll ps c) \<and>
   hd (reduce_loop ll ps c) = hd ps \<and> last (reduce_loop ll ps c) = last ps"
proof (induction ll ps c rule: reduce_loop.induct)
  case (1 ll ps c)
  show ?case
  proof (cases "Num (real (length ps)) > c \<and> 0 < snd (min_scan ll ps)")
    case False
    then have "reduce_loop ll ps c = ps"
      by (subst reduce_loop.simps) (auto simp: Let_def)
    with "1.prems" show ?thesis by simp
  next
    case True
    let ?i = "nat (snd (min_scan ll ps))"
    from True min_scan_interior have i: "1 \<le> ?i" "?i + 1 < length ps"
      by blast+
    note sp = splice1_interior[OF i]
    from sp(1) i have "2 \<le> length (splice1 ps ?i)" by simp
    from "1.IH"[OF _ refl _ this] True
    have IH: "length (reduce_loop ll (splice1 ps ?i) c) \<le> length (splice1 ps ?i)"
      "2 \<le> length (reduce_loop ll (splice1 ps ?i) c)"
      "hd (reduce_loop ll (splice1 ps ?i) c) = hd (splice1 ps ?i)"
      "last (reduce_loop ll (splice1 ps ?i) c) = last (splice1 ps ?i)"
      by simp_all
    have "reduce_loop ll ps c = reduce_loop ll (splice1 ps ?i) c"
      using True by (subst reduce_loop.simps) (simp add: Let_def)
    with IH sp show ?thesis by simp
  qed
qed

lemma reduce_loop_two: "length ps = 2 \<Longrightarrow> reduce_loop ll ps c = ps"
proof -
  assume "length ps = 2"
  then have "snd (min_scan ll ps) = - 1"
    by (simp add: min_scan_def)
  then show ?thesis
    by (subst reduce_loop.simps) (simp add: Let_def)
qed

text \<open>
  The length of the result for a finite count below the length of the input: the loop
  removes a point as long as the count is exceeded and an interior point is left.
\<close>

lemma reduce_loop_length:
  "2 \<le> length ps \<Longrightarrow> c < real (length ps) \<Longrightarrow>
   int (length (reduce_loop ll ps (Num c))) = max 2 \<lfloor>c\<rfloor>"
proof (induction ll ps "Num c" rule: reduce_loop.induct)
  case (1 ll ps)
  show ?case
  proof (cases "length ps = 2")
    case True
    moreover from "1.prems" True have "\<lfloor>c\<rfloor> < 2"
      by (simp add: floor_less_iff)
    ultimately show ?thesis
      by (simp add: reduce_loop_two)
  next
    case False
    with "1.prems" have three: "3 \<le> length ps" by simp
    let ?i = "nat (snd (min_scan ll ps))"
    from min_scan_found[OF three] have pos: "0 < snd (min_scan ll ps)" .
    from min_scan_interior[OF pos] have i: "1 \<le> ?i" "?i + 1 < length ps"
      by blast+
    note sp = splice1_interior[OF i]
    have unfold: "reduce_loop ll ps (Num c) = reduce_loop ll (splice1 ps ?i) (Num c)"
      using "1.prems" pos by (subst reduce_loop.simps) (simp add: Let_def)
    from sp(1) three have two: "2 \<le> length (splice1 ps ?i)" by simp
    show ?thesis
    proof (cases "c < real (length (splice1 ps ?i))")
      case True
      from "1.prems" have "Num c < Num (real (length ps))" by simp
      from "1.hyps"[OF this refl pos two True] unfold show ?thesis by simp
    next
      case False
      then have stop: "reduce_loop ll (splice1 ps ?i) (Num c) = splice1 ps ?i"
        by (subst reduce_loop.simps) simp
      from False sp(1) "1.prems" three have "\<lfloor>c\<rfloor> = int (length ps) - 1"
        by (intro floor_unique) (auto simp: of_nat_diff)
      with unfold stop sp(1) three show ?thesis by simp
    qed
  qed
qed

text \<open>
  Claim C9. For a list of at least two points and every count, \<^verbatim>\<open>reduce\<close> returns a list
  that is not longer than the input and has the first and the last point of the input; the
  two endpoints are never removed, so at least two points remain, and a list of two points,
  which has no interior point to remove, is returned as it is, whatever the count. The
  function is total: the loop ends for every input.
\<close>

theorem reduce_keeps_endpoints:
  assumes "2 \<le> length ps"
  shows "length (reduce lineLength ps count) \<le> length ps \<and>
         2 \<le> length (reduce lineLength ps count) \<and>
         hd (reduce lineLength ps count) = hd ps \<and>
         last (reduce lineLength ps count) = last ps \<and>
         (length ps = 2 \<longrightarrow> reduce lineLength ps count = ps)"
  using assms reduce_loop_props[of ps lineLength count] reduce_loop_two[of ps lineLength count]
  by (simp add: reduce_def)

theorem reduce_keeps_endpoints_witness:
  "2 \<le> length six_points \<and>
   reduce x_distance six_points (Num 5) = five_points \<and>
   length (reduce x_distance six_points (Num 5)) \<le> length six_points \<and>
   hd (reduce x_distance six_points (Num 5)) = (Num 0, Num 0) \<and>
   last (reduce x_distance six_points (Num 5)) = (Num 5, Num 0)"
proof -
  have two: "2 \<le> length six_points"
    by (simp add: six_points_def)
  from reduce_keeps_endpoints[OF two, of x_distance "Num 5"]
  have "length (reduce x_distance six_points (Num 5)) \<le> length six_points"
    "hd (reduce x_distance six_points (Num 5)) = hd six_points"
    "last (reduce x_distance six_points (Num 5)) = last six_points"
    by simp_all
  with two reduce_six_points show ?thesis
    by (simp add: six_points_def)
qed

text \<open>The length of the result, for a finite count.\<close>

lemma reduce_length:
  assumes "2 \<le> length ps"
  shows "int (length (reduce lineLength ps (Num c))) =
           (if real (length ps) \<le> c then int (length ps) else max 2 \<lfloor>c\<rfloor>)"
  using assms reduce_loop_length[of ps c lineLength] by (simp add: reduce_def)

end
